theory Spec2Isabelle
  imports Main "HOL-Library.Multiset"
begin

section \<open>Data model\<close>

text \<open>
  A shallow embedding of \<^verbatim>\<open>src/backtest.py\<close> (class \<^verbatim>\<open>BackTest\<close>).

  Timestamps (pandas \<^verbatim>\<open>Timestamp\<close>, naive) are whole seconds since the epoch, as \<open>int\<close>.
  The five price and volume cells of a row are never inspected by \<^verbatim>\<open>backtest.py\<close>; their
  type is the parameter \<open>'v\<close>.
\<close>

type_synonym tf = string

record 'v candle =
  open_time :: int
  c_open :: 'v
  c_high :: 'v
  c_low :: 'v
  c_close :: 'v
  c_volume :: 'v

text \<open>
  A pandas \<^verbatim>\<open>DataFrame\<close>: its column names and its rows, each row with its index label.
\<close>

record 'v dataframe =
  columns :: "string list"
  rows :: "(int \<times> 'v candle) list"

text \<open>
  What \<^verbatim>\<open>pd.read_csv\<close> finds at a path that exists: a file of zero bytes (no header line),
  on which pandas raises \<^verbatim>\<open>EmptyDataError\<close>, or a header line
  \<^verbatim>\<open>Open time,Open,High,Low,Close,Volume\<close> followed by the data rows (none for a file that
  holds the header only). The second is the layout \<^verbatim>\<open>_download_monthly_data\<close> saves.
\<close>

datatype 'v csv_file = ZeroBytes | Csv "'v candle list"

datatype error =
    EmptyDataError
  | ValueError_NoData string tf
  | ValueError_Insufficient string tf nat nat
  | ValueError_MaxEmpty
  | ValueError_Date
  | IndexError
  | KeyError tf

text \<open>One strategy entry of the trading configuration: \<^verbatim>\<open>strategy["tfs"].get("tf")\<close>.\<close>

record strategy =
  tfs_tf :: "string option"

record symbol_cfg =
  symbol :: string
  year :: int
  months :: "int list"
  strategies :: "strategy list"

text \<open>
  One entry of \<^verbatim>\<open>tf_cron\<close> (imported from \<^verbatim>\<open>utils\<close>, not part of the sources): a dict
  with optional keys \<^verbatim>\<open>"hour"\<close> and \<^verbatim>\<open>"minute"\<close>.
\<close>

record cron =
  cron_hour :: "int list option"
  cron_minute :: "int list option"

text \<open>
  What the \<^verbatim>\<open>try\<close> block of \<^verbatim>\<open>_download_monthly_data\<close> meets: \<^verbatim>\<open>mt5.copy_rates_range\<close>
  answers \<^verbatim>\<open>None\<close>, or rows with which the block runs to its end, or it raises; or it
  answers rows and a later statement of the block raises (\<^verbatim>\<open>pd.to_datetime\<close> on a time
  out of bounds, \<^verbatim>\<open>os.makedirs\<close>, \<^verbatim>\<open>to_csv\<close>), leaving nothing at the file's path or
  what an interrupted \<^verbatim>\<open>to_csv\<close> wrote there.
\<close>

datatype 'v rates =
    RatesNone
  | Rates "'v candle list"
  | RatesRaises
  | RatesThenRaises "'v candle list" "'v csv_file option"

text \<open>
  The parts of the environment that \<^verbatim>\<open>backtest.py\<close> reads but does not define:
  \<^item> \<open>csv_data_path symbol interval year month\<close> is
    \<^verbatim>\<open>os.path.join(self.data_dir, "{}-{}-{}-{:02d}.csv".format(symbol, interval, year, month))\<close>;
  \<^item> \<open>NUM_KLINE_INIT\<close> and \<open>tf_cron\<close> come from \<^verbatim>\<open>utils\<close> (\<open>tf_cron\<close> as its items, in key
    order);
  \<^item> \<open>get_required_tfs cfg\<close> is \<^verbatim>\<open>Trader(cfg).get_required_tfs()\<close> after
    \<^verbatim>\<open>init_strategies()\<close>, in the iteration order of the returned set;
  \<^item> \<open>exchange_config_file\<close> says whether the constructor was given one, \<open>has_mt5\<close> whether
    the loaded JSON has the key \<^verbatim>\<open>"mt5"\<close>;
  \<^item> \<open>mt5_initialize\<close>, \<open>mt5_login\<close> and \<open>mt5_account_info\<close> are what the three MetaTrader
    calls of \<^verbatim>\<open>initialize_mt5\<close> answer;
  \<^item> \<open>copy_rates_range symbol interval year month\<close> is the answer of the broker for the
    month's date range, and \<open>time_timezone\<close> is \<^verbatim>\<open>time.timezone\<close>;
  \<^item> \<open>quicksort_ties\<close> is the order in which the sort of \<^verbatim>\<open>sort_values\<close> (numpy's
    quicksort by default, which is not stable) leaves rows of equal key: given the key
    column, a rank for each row position.
\<close>

record 'v env =
  csv_data_path :: "string \<Rightarrow> string \<Rightarrow> int \<Rightarrow> int \<Rightarrow> string"
  NUM_KLINE_INIT :: nat
  tf_cron :: "(tf \<times> cron) list"
  get_required_tfs :: "symbol_cfg \<Rightarrow> tf list"
  exchange_config_file :: bool
  has_mt5 :: bool
  mt5_initialize :: bool
  mt5_login :: bool
  mt5_account_info :: bool
  copy_rates_range :: "string \<Rightarrow> string \<Rightarrow> int \<Rightarrow> int \<Rightarrow> 'v rates"
  time_timezone :: int
  quicksort_ties :: "int list \<Rightarrow> nat \<Rightarrow> nat"

text \<open>The data directory: what is stored at each path.\<close>

type_synonym 'v storage = "string \<Rightarrow> 'v csv_file option"

text \<open>
  What a run shows to the outside: the records written to \<^verbatim>\<open>bot_logger\<close> and the calls made
  on the \<^verbatim>\<open>Trader\<close>, in program order.
\<close>

datatype diag =
    DataFileNotFound string
  | EmptyDataFile string
  | NoDataFound string tf "int list"
  | InsufficientData string tf nat nat
  | DownloadMoreData
  | NeedOneMinute nat
  | NeedFiveMinute nat
  | StartTimer int int

datatype 'v event =
    LogInfo diag
  | LogWarning diag
  | LogError diag
  | InitStrategies
  | InitChart "(tf \<times> 'v dataframe) list"
  | AttachOms
  | OnKline tf "'v dataframe"

section \<open>The pandas operations the program uses\<close>

definition candle_columns :: "string list" where
  "candle_columns = [''Open time'', ''Open'', ''High'', ''Low'', ''Close'', ''Volume'']"

definition len :: "'v dataframe \<Rightarrow> nat" where
  "len df = length (rows df)"

text \<open>\<^verbatim>\<open>pd.DataFrame(columns=[...])\<close>: the given columns and no row.\<close>

definition empty_frame :: "string list \<Rightarrow> 'v dataframe" where
  "empty_frame cols = \<lparr>columns = cols, rows = []\<rparr>"

text \<open>A fresh \<^verbatim>\<open>RangeIndex\<close>: labels 0, 1, 2, ...\<close>

definition reset_index :: "'v candle list \<Rightarrow> (int \<times> 'v candle) list" where
  "reset_index cs = zip (map int [0..<length cs]) cs"

definition read_csv :: "'v csv_file \<Rightarrow> error + 'v dataframe" where
  "read_csv f =
     (case f of
        ZeroBytes \<Rightarrow> Inl EmptyDataError
      | Csv cs \<Rightarrow> Inr \<lparr>columns = candle_columns, rows = reset_index cs\<rparr>)"

text \<open>\<^verbatim>\<open>pd.concat(dfs, ignore_index=True)\<close>: the rows in list order under fresh labels.\<close>

definition concat_frames :: "'v dataframe list \<Rightarrow> 'v dataframe" where
  "concat_frames dfs =
     \<lparr>columns = remdups (concat (map columns dfs)),
      rows = reset_index (concat (map (\<lambda>df. map snd (rows df)) dfs))\<rparr>"

text \<open>
  \<^verbatim>\<open>df.sort_values("Open time").reset_index(drop=True)\<close>. The sort is pandas' default,
  numpy's quicksort on the key column: the rows come out in the order of their open
  times, and rows that share an open time in an order that depends on the key column
  only and need not be the one they had (numpy sorts up to 16 keys by insertion, which
  keeps it). Here the rows are first put in the order of their \<open>quicksort_ties\<close> ranks
  and then sorted by open time with a stable sort, so that rows of equal open time come
  out by rank, and by position at equal rank: every order a sort by open time can give
  is the result for some ranks, and constant ranks give the stable sort.
\<close>

definition sort_values :: "'v env \<Rightarrow> 'v dataframe \<Rightarrow> 'v dataframe" where
  "sort_values e df =
     (let cs = map snd (rows df);
          ranks = map (quicksort_ties e (map open_time cs)) [0..<length cs]
      in df\<lparr>rows := reset_index (sort_key open_time (map snd (sort_key fst (zip ranks cs))))\<rparr>)"

text \<open>The boolean masks \<^verbatim>\<open>df[df["Open time"] <= t]\<close> and \<^verbatim>\<open>df[df["Open time"] > t]\<close>.\<close>

definition mask_le :: "'v dataframe \<Rightarrow> int \<Rightarrow> 'v dataframe" where
  "mask_le df t = df\<lparr>rows := filter (\<lambda>r. open_time (snd r) \<le> t) (rows df)\<rparr>"

definition mask_gt :: "'v dataframe \<Rightarrow> int \<Rightarrow> 'v dataframe" where
  "mask_gt df t = df\<lparr>rows := filter (\<lambda>r. open_time (snd r) > t) (rows df)\<rparr>"

text \<open>
  The slice \<^verbatim>\<open>df[-n:]\<close>: the last \<open>n\<close> rows (all of them when there are fewer), and every
  row when \<open>n = 0\<close>, where Python reads \<^verbatim>\<open>df[0:]\<close>.
\<close>

definition tail_slice :: "nat \<Rightarrow> 'v dataframe \<Rightarrow> 'v dataframe" where
  "tail_slice n df =
     (if n = 0 then df else df\<lparr>rows := drop (length (rows df) - n) (rows df)\<rparr>)"

text \<open>The slices \<^verbatim>\<open>df[:1]\<close> and \<^verbatim>\<open>df[1:]\<close>.\<close>

definition head1 :: "'v dataframe \<Rightarrow> 'v dataframe" where
  "head1 df = df\<lparr>rows := take 1 (rows df)\<rparr>"

definition tail1 :: "'v dataframe \<Rightarrow> 'v dataframe" where
  "tail1 df = df\<lparr>rows := drop 1 (rows df)\<rparr>"

text \<open>\<^verbatim>\<open>df.iloc[i]["Open time"]\<close>: a negative position counts from the end.\<close>

definition iloc_open_time :: "'v dataframe \<Rightarrow> int \<Rightarrow> error + int" where
  "iloc_open_time df i =
     (let n = int (length (rows df)); j = (if i < 0 then n + i else i)
      in if 0 \<le> j \<and> j < n then Inr (open_time (snd (rows df ! nat j))) else Inl IndexError)"

text \<open>\<^verbatim>\<open>df.index[0]\<close> and \<^verbatim>\<open>df.index -= k\<close>.\<close>

definition index0 :: "'v dataframe \<Rightarrow> error + int" where
  "index0 df = (case rows df of [] \<Rightarrow> Inl IndexError | r # _ \<Rightarrow> Inr (fst r))"

definition shift_index :: "int \<Rightarrow> 'v dataframe \<Rightarrow> 'v dataframe" where
  "shift_index k df = df\<lparr>rows := map (\<lambda>r. (fst r - k, snd r)) (rows df)\<rparr>"

text \<open>Python's \<^verbatim>\<open>max\<close> of a list; it raises \<^verbatim>\<open>ValueError\<close> on the empty list.\<close>

fun py_max :: "int list \<Rightarrow> error + int" where
  "py_max [] = Inl ValueError_MaxEmpty"
| "py_max (x # xs) = Inr (fold max xs x)"

section \<open>Monthly data store\<close>

text \<open>
  \<^verbatim>\<open>load_mt5_klines_monthly_data\<close>: the log records it writes, and the frame it returns or
  the exception it raises. \<^verbatim>\<open>pd.to_datetime\<close> turns the text of the time column into
  timestamps; the rows of the model hold them already.
\<close>

definition load_mt5_klines_monthly_data ::
  "'v env \<Rightarrow> 'v storage \<Rightarrow> string \<Rightarrow> string \<Rightarrow> int \<Rightarrow> int \<Rightarrow> 'v event list \<times> (error + 'v dataframe)" where
  "load_mt5_klines_monthly_data e st smb interval month yr =
     (let csv_path = csv_data_path e smb interval yr month in
      case st csv_path of
        None \<Rightarrow> ([LogWarning (DataFileNotFound csv_path)], Inr (empty_frame candle_columns))
      | Some f \<Rightarrow>
          (case read_csv f of
             Inl err \<Rightarrow> ([], Inl err)
           | Inr df \<Rightarrow>
               if len df = 0
               then ([LogWarning (EmptyDataFile csv_path)], Inr (empty_frame candle_columns))
               else ([], Inr df)))"

definition load_klines_monthly_data ::
  "'v env \<Rightarrow> 'v storage \<Rightarrow> string \<Rightarrow> string \<Rightarrow> int \<Rightarrow> int \<Rightarrow> 'v event list \<times> (error + 'v dataframe)" where
  "load_klines_monthly_data e st smb interval month yr =
     load_mt5_klines_monthly_data e st smb interval month yr"

section \<open>Requirement resolver\<close>

type_synonym file_key = "string \<times> string \<times> int \<times> int"

text \<open>
  A Python \<^verbatim>\<open>set\<close> is a list without repetition; \<^verbatim>\<open>s.add(x)\<close> is \<open>List.insert x s\<close>. The
  order in which Python iterates over a set is not fixed by the language; the model
  iterates in list order.
\<close>

text \<open>The inner loop of \<^verbatim>\<open>get_required_data_files\<close> over \<^verbatim>\<open>symbol_cfg["strategies"]\<close>.\<close>

fun collect_intervals :: "strategy list \<Rightarrow> string list \<Rightarrow> string list" where
  "collect_intervals [] intervals = intervals"
| "collect_intervals (s # ss) intervals =
     (case tfs_tf s of
        None \<Rightarrow> collect_intervals ss intervals
      | Some t \<Rightarrow>
          if t \<noteq> [] then collect_intervals ss (List.insert t intervals)
          else collect_intervals ss intervals)"

text \<open>The two nested loops that add \<^verbatim>\<open>(symbol, interval, year, month)\<close>.\<close>

fun add_months :: "string \<Rightarrow> string \<Rightarrow> int \<Rightarrow> int list \<Rightarrow> file_key list \<Rightarrow> file_key list" where
  "add_months smb interval yr [] required_files = required_files"
| "add_months smb interval yr (m # ms) required_files =
     add_months smb interval yr ms (List.insert (smb, interval, yr, m) required_files)"

fun add_intervals :: "string \<Rightarrow> int \<Rightarrow> int list \<Rightarrow> string list \<Rightarrow> file_key list \<Rightarrow> file_key list" where
  "add_intervals smb yr ms [] required_files = required_files"
| "add_intervals smb yr ms (i # intervals) required_files =
     add_intervals smb yr ms intervals (add_months smb i yr ms required_files)"

text \<open>The body of the loop over the symbol entries, and the loop.\<close>

definition add_symbol_cfg :: "symbol_cfg \<Rightarrow> file_key list \<Rightarrow> file_key list" where
  "add_symbol_cfg cfg required_files =
     add_intervals (symbol cfg) (year cfg) (months cfg)
       (collect_intervals (strategies cfg) []) required_files"

fun add_symbol_cfgs :: "symbol_cfg list \<Rightarrow> file_key list \<Rightarrow> file_key list" where
  "add_symbol_cfgs [] required_files = required_files"
| "add_symbol_cfgs (cfg # cfgs) required_files =
     add_symbol_cfgs cfgs (add_symbol_cfg cfg required_files)"

definition get_required_data_files :: "symbol_cfg list \<Rightarrow> file_key list" where
  "get_required_data_files symbols_config = add_symbol_cfgs symbols_config []"

section \<open>Data provisioner\<close>

text \<open>
  The log records of the provisioning functions are left out of the model; what they
  return, what they store and which fetches they attempt are kept.
\<close>

text \<open>The loop of \<^verbatim>\<open>check_data_files_exist\<close> over the required files.\<close>

fun check_missing :: "'v env \<Rightarrow> 'v storage \<Rightarrow> file_key list \<Rightarrow> file_key list \<Rightarrow> file_key list" where
  "check_missing e st [] missing_files = missing_files"
| "check_missing e st ((smb, interval, yr, month) # required_files) missing_files =
     (if st (csv_data_path e smb interval yr month) = None
      then check_missing e st required_files (missing_files @ [(smb, interval, yr, month)])
      else check_missing e st required_files missing_files)"

definition check_data_files_exist ::
  "'v env \<Rightarrow> 'v storage \<Rightarrow> symbol_cfg list \<Rightarrow> bool \<times> file_key list" where
  "check_data_files_exist e st symbols_config =
     (let missing_files = check_missing e st (get_required_data_files symbols_config) []
      in (length missing_files = 0, missing_files))"

definition initialize_mt5 :: "'v env \<Rightarrow> bool" where
  "initialize_mt5 e =
     (if \<not> mt5_initialize e then False
      else if mt5_login e then (if mt5_account_info e then True else False)
      else False)"

definition TIMEFRAME_MAP_keys :: "string list" where
  "TIMEFRAME_MAP_keys = [''1m'', ''5m'', ''15m'', ''30m'', ''1h'', ''4h'', ''1d'', ''1w'', ''1mn'']"

text \<open>
  \<^verbatim>\<open>_download_monthly_data\<close>. \<^verbatim>\<open>datetime(year, month, 1)\<close> and \<^verbatim>\<open>calendar.monthrange\<close> stand
  before the \<^verbatim>\<open>try\<close> block and raise \<^verbatim>\<open>ValueError\<close> for a year outside 1..9999 or a month
  outside 1..12; every exception inside the block is caught and answered with
  \<^verbatim>\<open>False\<close>, also one raised after the broker has answered rows. On success the rows are
  stored under the file's path, their times moved by \<^verbatim>\<open>-time.timezone\<close>.
\<close>

definition download_monthly_data ::
  "'v env \<Rightarrow> 'v storage \<Rightarrow> string \<Rightarrow> string \<Rightarrow> int \<Rightarrow> int \<Rightarrow> error + (bool \<times> 'v storage)" where
  "download_monthly_data e st smb interval month yr =
     (if interval \<notin> set TIMEFRAME_MAP_keys then Inr (False, st)
      else if \<not> (1 \<le> yr \<and> yr \<le> 9999 \<and> 1 \<le> month \<and> month \<le> 12) then Inl ValueError_Date
      else
        (case copy_rates_range e smb interval yr month of
           RatesRaises \<Rightarrow> Inr (False, st)
         | RatesNone \<Rightarrow> Inr (False, st)
         | Rates rs \<Rightarrow>
             if length rs = 0 then Inr (False, st)
             else Inr (True,
               st(csv_data_path e smb interval yr month \<mapsto>
                    Csv (map (\<lambda>c. c\<lparr>open_time := open_time c + (- time_timezone e)\<rparr>) rs)))
         | RatesThenRaises rs left \<Rightarrow>
             if length rs = 0 then Inr (False, st)
             else (case left of
                     None \<Rightarrow> Inr (False, st)
                   | Some f \<Rightarrow> Inr (False, st(csv_data_path e smb interval yr month \<mapsto> f)))))"

text \<open>
  A Python \<^verbatim>\<open>dict\<close> as the list of its items in insertion order: \<^verbatim>\<open>d[k] = v\<close> replaces
  the value of a key that is there and appends a new key; \<^verbatim>\<open>d[k]\<close> is \<open>map_of d k\<close>.
\<close>

fun dict_set :: "('k \<times> 'a) list \<Rightarrow> 'k \<Rightarrow> 'a \<Rightarrow> ('k \<times> 'a) list" where
  "dict_set [] k v = [(k, v)]"
| "dict_set ((k', v') # d) k v =
     (if k' = k then (k, v) # d else (k', v') # dict_set d k v)"

text \<open>The grouping loop of \<^verbatim>\<open>download_missing_data\<close>.\<close>

fun group_by_symbol ::
  "file_key list \<Rightarrow> (string \<times> (string \<times> int \<times> int) list) list \<Rightarrow>
   (string \<times> (string \<times> int \<times> int) list) list" where
  "group_by_symbol [] files_by_symbol = files_by_symbol"
| "group_by_symbol ((smb, interval, yr, month) # missing_files) files_by_symbol =
     (let file_list = (case map_of files_by_symbol smb of None \<Rightarrow> [] | Some l \<Rightarrow> l)
      in group_by_symbol missing_files
           (dict_set files_by_symbol smb (file_list @ [(interval, yr, month)])))"

text \<open>
  The state of the download loops: the storage, the counter \<^verbatim>\<open>successful\<close>, and the calls
  of \<^verbatim>\<open>_download_monthly_data\<close> made so far.
\<close>

record 'v dl_state =
  dl_storage :: "'v storage"
  successful :: nat
  attempted :: "file_key list"

fun download_file_list ::
  "'v env \<Rightarrow> string \<Rightarrow> (string \<times> int \<times> int) list \<Rightarrow> 'v dl_state \<Rightarrow> 'v dl_state \<times> error option" where
  "download_file_list e smb [] s = (s, None)"
| "download_file_list e smb ((interval, yr, month) # file_list) s =
     (let s1 = s\<lparr>attempted := attempted s @ [(smb, interval, yr, month)]\<rparr> in
      case download_monthly_data e (dl_storage s) smb interval month yr of
        Inl err \<Rightarrow> (s1, Some err)
      | Inr (ok, st') \<Rightarrow>
          download_file_list e smb file_list
            (s1\<lparr>dl_storage := st', successful := (if ok then successful s + 1 else successful s)\<rparr>))"

fun download_symbols ::
  "'v env \<Rightarrow> (string \<times> (string \<times> int \<times> int) list) list \<Rightarrow> 'v dl_state \<Rightarrow> 'v dl_state \<times> error option" where
  "download_symbols e [] s = (s, None)"
| "download_symbols e ((smb, file_list) # files_by_symbol) s =
     (case download_file_list e smb file_list s of
        (s', Some err) \<Rightarrow> (s', Some err)
      | (s', None) \<Rightarrow> download_symbols e files_by_symbol s')"

text \<open>
  \<^verbatim>\<open>download_missing_data\<close>: the state it leaves, and its answer or the exception that
  leaves it.
\<close>

definition download_missing_data ::
  "'v env \<Rightarrow> 'v storage \<Rightarrow> file_key list \<Rightarrow> 'v dl_state \<times> (error + bool)" where
  "download_missing_data e st missing_files =
     (let s0 = \<lparr>dl_storage = st, successful = 0, attempted = []\<rparr> in
      if \<not> exchange_config_file e then (s0, Inr False)
      else if \<not> has_mt5 e then (s0, Inr False)
      else if \<not> initialize_mt5 e then (s0, Inr False)
      else
        (let total = length missing_files;
             files_by_symbol = group_by_symbol missing_files []
         in case download_symbols e files_by_symbol s0 of
              (s, Some err) \<Rightarrow> (s, Inl err)
            | (s, None) \<Rightarrow> (s, Inr (successful s = total))))"

definition ensure_data_files ::
  "'v env \<Rightarrow> 'v storage \<Rightarrow> symbol_cfg list \<Rightarrow> 'v dl_state \<times> (error + bool)" where
  "ensure_data_files e st symbols_config =
     (case check_data_files_exist e st symbols_config of
        (all_exist, missing_files) \<Rightarrow>
          if all_exist then (\<lparr>dl_storage = st, successful = 0, attempted = []\<rparr>, Inr True)
          else if \<not> exchange_config_file e
          then (\<lparr>dl_storage = st, successful = 0, attempted = []\<rparr>, Inr False)
          else download_missing_data e st missing_files)"

section \<open>Timeframe alignment\<close>

text \<open>
  The loop of \<^verbatim>\<open>backtest_bot_trader\<close> over \<^verbatim>\<open>sorted(symbol_cfg["months"])\<close>, which keeps
  the months that hold rows.
\<close>

fun load_months ::
  "'v env \<Rightarrow> 'v storage \<Rightarrow> string \<Rightarrow> tf \<Rightarrow> int \<Rightarrow> int list \<Rightarrow> 'v dataframe list \<Rightarrow>
   'v event list \<times> (error + 'v dataframe list)" where
  "load_months e st smb t yr [] monthly_data = ([], Inr monthly_data)"
| "load_months e st smb t yr (month # ms) monthly_data =
     (case load_klines_monthly_data e st smb t month yr of
        (w, Inl err) \<Rightarrow> (w, Inl err)
      | (w, Inr month_data) \<Rightarrow>
          (case load_months e st smb t yr ms
                  (if len month_data > 0 then monthly_data @ [month_data] else monthly_data) of
             (w', r) \<Rightarrow> (w @ w', r)))"

text \<open>The body of the loop over the required timeframes: one timeframe's chart.\<close>

definition load_chart ::
  "'v env \<Rightarrow> 'v storage \<Rightarrow> symbol_cfg \<Rightarrow> tf \<Rightarrow> 'v event list \<times> (error + 'v dataframe)" where
  "load_chart e st cfg t =
     (case load_months e st (symbol cfg) t (year cfg) (sort (months cfg)) [] of
        (w, Inl err) \<Rightarrow> (w, Inl err)
      | (w, Inr monthly_data) \<Rightarrow>
          if length monthly_data = 0
          then (w @ [LogError (NoDataFound (symbol cfg) t (months cfg))],
                Inl (ValueError_NoData (symbol cfg) t))
          else
            (let chart_df = sort_values e (concat_frames monthly_data) in
             if len chart_df < NUM_KLINE_INIT e
             then (w @ [LogError (InsufficientData (symbol cfg) t (len chart_df) (NUM_KLINE_INIT e)),
                        LogError DownloadMoreData,
                        LogError (NeedOneMinute (NUM_KLINE_INIT e)),
                        LogError (NeedFiveMinute (NUM_KLINE_INIT e))],
                   Inl (ValueError_Insufficient (symbol cfg) t (NUM_KLINE_INIT e) (len chart_df)))
             else (w, Inr chart_df)))"

fun load_charts ::
  "'v env \<Rightarrow> 'v storage \<Rightarrow> symbol_cfg \<Rightarrow> tf list \<Rightarrow> (tf \<times> 'v dataframe) list \<Rightarrow>
   'v event list \<times> (error + (tf \<times> 'v dataframe) list)" where
  "load_charts e st cfg [] tfs_chart = ([], Inr tfs_chart)"
| "load_charts e st cfg (t # ts) tfs_chart =
     (case load_chart e st cfg t of
        (w, Inl err) \<Rightarrow> (w, Inl err)
      | (w, Inr chart_df) \<Rightarrow>
          (case load_charts e st cfg ts (dict_set tfs_chart t chart_df) of
             (w', r) \<Rightarrow> (w @ w', r)))"

text \<open>
  The list comprehensions \<^verbatim>\<open>[tf_chart.iloc[i]["Open time"] for tf_chart in tfs_chart.values()]\<close>.
\<close>

fun iloc_open_times :: "(tf \<times> 'v dataframe) list \<Rightarrow> int \<Rightarrow> error + int list" where
  "iloc_open_times [] i = Inr []"
| "iloc_open_times ((t, tf_chart) # d) i =
     (case iloc_open_time tf_chart i of
        Inl err \<Rightarrow> Inl err
      | Inr x \<Rightarrow> (case iloc_open_times d i of Inl err \<Rightarrow> Inl err | Inr xs \<Rightarrow> Inr (x # xs)))"

text \<open>
  The loop over \<^verbatim>\<open>tfs_chart.items()\<close> that cuts every chart at \<^verbatim>\<open>max_time\<close>. It answers the
  two dicts \<^verbatim>\<open>tfs_chart_init\<close> and \<^verbatim>\<open>tfs_chart\<close>; assigning to a key that is there keeps
  the key's place.
\<close>

fun split_charts ::
  "nat \<Rightarrow> int \<Rightarrow> (tf \<times> 'v dataframe) list \<Rightarrow>
   error + ((tf \<times> 'v dataframe) list \<times> (tf \<times> 'v dataframe) list)" where
  "split_charts n max_time [] = Inr ([], [])"
| "split_charts n max_time ((t, tf_chart) # d) =
     (let chart_init = tail_slice n (mask_le tf_chart max_time);
          chart_rest = mask_gt tf_chart max_time
      in case index0 chart_init of
           Inl err \<Rightarrow> Inl err
         | Inr start_index \<Rightarrow>
             (case split_charts n max_time d of
                Inl err \<Rightarrow> Inl err
              | Inr (inits, rests) \<Rightarrow>
                  Inr ((t, shift_index start_index chart_init) # inits,
                       (t, shift_index start_index chart_rest) # rests)))"

record 'v aligned =
  al_max_time :: int
  al_end_time :: int
  tfs_chart_init :: "(tf \<times> 'v dataframe) list"
  tfs_chart_rest :: "(tf \<times> 'v dataframe) list"

definition align :: "nat \<Rightarrow> (tf \<times> 'v dataframe) list \<Rightarrow> error + 'v aligned" where
  "align n tfs_chart =
     (case iloc_open_times tfs_chart (int n - 1) of
        Inl err \<Rightarrow> Inl err
      | Inr starts \<Rightarrow>
     (case py_max starts of
        Inl err \<Rightarrow> Inl err
      | Inr max_time \<Rightarrow>
     (case iloc_open_times tfs_chart (- 1) of
        Inl err \<Rightarrow> Inl err
      | Inr ends \<Rightarrow>
     (case py_max ends of
        Inl err \<Rightarrow> Inl err
      | Inr end_time \<Rightarrow>
     (case split_charts n max_time tfs_chart of
        Inl err \<Rightarrow> Inl err
      | Inr (inits, rests) \<Rightarrow>
          Inr \<lparr>al_max_time = max_time, al_end_time = end_time,
               tfs_chart_init = inits, tfs_chart_rest = rests\<rparr>)))))"

section \<open>Replay scheduler\<close>

definition hour_of :: "int \<Rightarrow> int" where
  "hour_of timer = (timer div 3600) mod 24"

definition minute_of :: "int \<Rightarrow> int" where
  "minute_of timer = (timer div 60) mod 60"

text \<open>The firing test of the inner loop.\<close>

definition cron_fires :: "cron \<Rightarrow> int \<Rightarrow> int \<Rightarrow> bool" where
  "cron_fires cron_time hour minute =
     ((case cron_hour cron_time of None \<Rightarrow> True | Some hs \<Rightarrow> hour \<in> set hs) \<and>
      (case cron_minute cron_time of None \<Rightarrow> True | Some ms \<Rightarrow> minute \<in> set ms))"

text \<open>
  The inner loop \<^verbatim>\<open>for tf in required_tfs\<close> of one tick: the calls it makes and the dict
  \<^verbatim>\<open>tfs_chart\<close> it leaves, or the \<^verbatim>\<open>KeyError\<close> of a failed lookup.
\<close>

fun on_tick ::
  "(tf \<times> cron) list \<Rightarrow> int \<Rightarrow> int \<Rightarrow> tf list \<Rightarrow> (tf \<times> 'v dataframe) list \<Rightarrow>
   'v event list \<times> (error + (tf \<times> 'v dataframe) list)" where
  "on_tick crons hour minute [] tfs_chart = ([], Inr tfs_chart)"
| "on_tick crons hour minute (t # ts) tfs_chart =
     (case map_of crons t of
        None \<Rightarrow> ([], Inl (KeyError t))
      | Some cron_time \<Rightarrow>
          if cron_fires cron_time hour minute
          then
            (case map_of tfs_chart t of
               None \<Rightarrow> ([], Inl (KeyError t))
             | Some df \<Rightarrow>
                 (case on_tick crons hour minute ts (dict_set tfs_chart t (tail1 df)) of
                    (w, r) \<Rightarrow> (OnKline t (head1 df) # w, r)))
          else on_tick crons hour minute ts tfs_chart)"

text \<open>The loop \<^verbatim>\<open>while timer <= end_time\<close>.\<close>

function replay ::
  "(tf \<times> cron) list \<Rightarrow> tf list \<Rightarrow> int \<Rightarrow> int \<Rightarrow> (tf \<times> 'v dataframe) list \<Rightarrow>
   'v event list \<times> (error + (tf \<times> 'v dataframe) list)" where
  "replay crons required_tfs timer end_time tfs_chart =
     (if timer \<le> end_time
      then
        (case on_tick crons (hour_of (timer + 60)) (minute_of (timer + 60)) required_tfs tfs_chart of
           (w, Inl err) \<Rightarrow> (w, Inl err)
         | (w, Inr tfs_chart') \<Rightarrow>
             (case replay crons required_tfs (timer + 60) end_time tfs_chart' of
                (w', r) \<Rightarrow> (w @ w', r)))
      else ([], Inr tfs_chart))"
  by pat_completeness auto
termination
  by (relation "measure (\<lambda>(crons, required_tfs, timer, end_time, tfs_chart). nat (end_time + 1 - timer))")
    auto

text \<open>
  \<^verbatim>\<open>backtest_bot_trader\<close>: the log records and \<^verbatim>\<open>Trader\<close> calls of the run, and whether it
  returned the trader or raised.
\<close>

definition backtest_bot_trader ::
  "'v env \<Rightarrow> 'v storage \<Rightarrow> symbol_cfg \<Rightarrow> 'v event list \<times> (error + unit)" where
  "backtest_bot_trader e st cfg =
     (case load_charts e st cfg (get_required_tfs e cfg) [] of
        (w, Inl err) \<Rightarrow> (InitStrategies # w, Inl err)
      | (w, Inr tfs_chart) \<Rightarrow>
          (case align (NUM_KLINE_INIT e) tfs_chart of
             Inl err \<Rightarrow> (InitStrategies # w, Inl err)
           | Inr al \<Rightarrow>
               (let required_tfs =
                      filter (\<lambda>t. t \<in> set (get_required_tfs e cfg)) (map fst (tf_cron e))
                in case replay (tf_cron e) required_tfs (al_max_time al) (al_end_time al)
                          (tfs_chart_rest al) of
                     (w', r) \<Rightarrow>
                       (InitStrategies # w @
                          [InitChart (tfs_chart_init al), AttachOms,
                           LogInfo (StartTimer (al_max_time al) (al_end_time al))] @ w',
                        (case r of Inl err \<Rightarrow> Inl err | Inr _ \<Rightarrow> Inr ())))))"

section \<open>The run\<close>

text \<open>
  What \<^verbatim>\<open>start\<close> leaves behind: \<^verbatim>\<open>self.bot_traders\<close>, each trader told by its
  configuration entry and the events of its backtest, and the entries with which
  \<^verbatim>\<open>self.backtest_bot_trader\<close> has been called, in call order (each call is announced by
  the log record \<^verbatim>\<open>Backtest bot for symbol\<close>). A backtest that raises has been called
  and appends no trader.
\<close>

record 'v run_state =
  bot_traders :: "(symbol_cfg \<times> 'v event list) list"
  backtested :: "symbol_cfg list"

text \<open>The loop of \<^verbatim>\<open>start\<close> over the symbol entries, with its counter \<^verbatim>\<open>c\<close>.\<close>

fun run_backtests ::
  "'v env \<Rightarrow> 'v storage \<Rightarrow> symbol_cfg list \<Rightarrow> nat \<Rightarrow> 'v run_state \<Rightarrow>
   'v run_state \<times> (error + unit)" where
  "run_backtests e st [] c r = (r, Inr ())"
| "run_backtests e st (cfg # symbols_config) c r =
     (case backtest_bot_trader e st cfg of
        (w, Inl err) \<Rightarrow> (r\<lparr>backtested := backtested r @ [cfg]\<rparr>, Inl err)
      | (w, Inr _) \<Rightarrow>
          if c + 1 \<ge> 2
          then (r\<lparr>backtested := backtested r @ [cfg],
                  bot_traders := bot_traders r @ [(cfg, w)]\<rparr>, Inr ())
          else run_backtests e st symbols_config (c + 1)
                 (r\<lparr>backtested := backtested r @ [cfg],
                    bot_traders := bot_traders r @ [(cfg, w)]\<rparr>))"

text \<open>
  \<^verbatim>\<open>start\<close>: it returns at once when \<^verbatim>\<open>ensure_data_files\<close> answers false, and runs the loop
  on the provisioned storage otherwise.
\<close>

definition start ::
  "'v env \<Rightarrow> 'v storage \<Rightarrow> symbol_cfg list \<Rightarrow> 'v run_state \<times> (error + unit)" where
  "start e st symbols_config =
     (case ensure_data_files e st symbols_config of
        (s, Inl err) \<Rightarrow> (\<lparr>bot_traders = [], backtested = []\<rparr>, Inl err)
      | (s, Inr ok) \<Rightarrow>
          if \<not> ok then (\<lparr>bot_traders = [], backtested = []\<rparr>, Inr ())
          else run_backtests e (dl_storage s) symbols_config 0
                 \<lparr>bot_traders = [], backtested = []\<rparr>)"

section \<open>Notions used to state the properties\<close>

text \<open>
  The timeframes a symbol entry's strategies name (a missing or empty \<^verbatim>\<open>tf\<close> is falsy and
  names none), and the product of these with the entry's months under its symbol and year.
\<close>

definition strategy_timeframes :: "symbol_cfg \<Rightarrow> string set" where
  "strategy_timeframes cfg = {t. t \<noteq> [] \<and> (\<exists>s\<in>set (strategies cfg). tfs_tf s = Some t)}"

definition cartesian :: "symbol_cfg \<Rightarrow> file_key set" where
  "cartesian cfg =
     (\<lambda>(i, m). (symbol cfg, i, year cfg, m)) ` (strategy_timeframes cfg \<times> set (months cfg))"

text \<open>
  A chart as the loading loop leaves it: labelled 0, 1, 2, ..., in the order of the open
  times, with at least \<open>n\<close> rows and not empty.
\<close>

definition loaded :: "nat \<Rightarrow> 'v dataframe \<Rightarrow> bool" where
  "loaded n df \<longleftrightarrow>
     map fst (rows df) = map int [0..<length (rows df)] \<and>
     sorted (map (\<lambda>r. open_time (snd r)) (rows df)) \<and>
     n \<le> length (rows df) \<and> rows df \<noteq> []"

text \<open>
  The two slices of a chart cut at \<open>mt\<close>: \<open>n\<close> rows labelled from 0 with open times up to
  \<open>mt\<close>, and rows labelled from \<open>n\<close> with open times after \<open>mt\<close>; both in time order.
\<close>

definition init_ok :: "nat \<Rightarrow> int \<Rightarrow> 'v dataframe \<Rightarrow> bool" where
  "init_ok n mt i \<longleftrightarrow>
     map fst (rows i) = map int [0..<n] \<and>
     (\<forall>r\<in>set (rows i). open_time (snd r) \<le> mt) \<and>
     sorted (map (\<lambda>r. open_time (snd r)) (rows i))"

definition rest_ok :: "nat \<Rightarrow> int \<Rightarrow> 'v dataframe \<Rightarrow> bool" where
  "rest_ok n mt r \<longleftrightarrow>
     map fst (rows r) = map int [n..<n + length (rows r)] \<and>
     (\<forall>x\<in>set (rows r). mt < open_time (snd x)) \<and>
     sorted (map (\<lambda>x. open_time (snd x)) (rows r))"

text \<open>The events that hand candles to the trader.\<close>

fun is_delivery :: "'v event \<Rightarrow> bool" where
  "is_delivery (InitChart d) = True"
| "is_delivery (OnKline t df) = True"
| "is_delivery ev = False"

text \<open>
  The number of candles the storage holds for a timeframe over the configured months; a
  month whose file is missing or cannot be read holds none.
\<close>

definition month_count :: "'v env \<Rightarrow> 'v storage \<Rightarrow> symbol_cfg \<Rightarrow> tf \<Rightarrow> int \<Rightarrow> nat" where
  "month_count e st cfg t month =
     (case st (csv_data_path e (symbol cfg) t (year cfg) month) of
        Some (Csv cs) \<Rightarrow> length cs
      | _ \<Rightarrow> 0)"

definition candle_count :: "'v env \<Rightarrow> 'v storage \<Rightarrow> symbol_cfg \<Rightarrow> tf \<Rightarrow> nat" where
  "candle_count e st cfg t = sum_list (map (month_count e st cfg t) (months cfg))"

text \<open>
  The rows handed to \<^verbatim>\<open>on_kline\<close> for a timeframe, in the order of the calls; the values
  the clock takes after each advance; whether the rule of a timeframe fires at a clock
  value (a timeframe that is no key of \<^verbatim>\<open>tf_cron\<close> never fires); and the number of ticks of
  a run at which it fires.
\<close>

fun delivered :: "tf \<Rightarrow> 'v event list \<Rightarrow> (int \<times> 'v candle) list" where
  "delivered t [] = []"
| "delivered t (OnKline t' df # evs) =
     (if t' = t then rows df @ delivered t evs else delivered t evs)"
| "delivered t (ev # evs) = delivered t evs"

function ticks :: "int \<Rightarrow> int \<Rightarrow> int list" where
  "ticks timer end_time =
     (if timer \<le> end_time then (timer + 60) # ticks (timer + 60) end_time else [])"
  by pat_completeness auto
termination
  by (relation "measure (\<lambda>(timer, end_time). nat (end_time + 1 - timer))") auto

definition fires_at :: "(tf \<times> cron) list \<Rightarrow> tf \<Rightarrow> int \<Rightarrow> int \<Rightarrow> bool" where
  "fires_at crons t hour minute =
     (case map_of crons t of None \<Rightarrow> False | Some cron_time \<Rightarrow> cron_fires cron_time hour minute)"

definition fires :: "(tf \<times> cron) list \<Rightarrow> tf \<Rightarrow> int \<Rightarrow> bool" where
  "fires crons t timer = fires_at crons t (hour_of timer) (minute_of timer)"

definition fire_count :: "(tf \<times> cron) list \<Rightarrow> tf \<Rightarrow> int \<Rightarrow> int \<Rightarrow> nat" where
  "fire_count crons t timer end_time = length (filter (fires crons t) (ticks timer end_time))"

text \<open>
  Whether the file of a key is absent from the storage; whether \<^verbatim>\<open>_download_monthly_data\<close>
  raises for a key (its date is read before the \<^verbatim>\<open>try\<close> block) and whether it answers
  \<^verbatim>\<open>True\<close>: neither depends on the storage. The items of the dict \<^verbatim>\<open>files_by_symbol\<close>
  as keys again.
\<close>

definition absent :: "'v env \<Rightarrow> 'v storage \<Rightarrow> file_key \<Rightarrow> bool" where
  "absent e st k = (case k of (smb, interval, yr, month) \<Rightarrow>
     st (csv_data_path e smb interval yr month) = None)"

definition fetch_raises :: "'v env \<Rightarrow> file_key \<Rightarrow> bool" where
  "fetch_raises e k = (case k of (smb, interval, yr, month) \<Rightarrow>
     (case download_monthly_data e (\<lambda>p. None) smb interval month yr of
        Inl err \<Rightarrow> True | Inr res \<Rightarrow> False))"

definition fetch_ok :: "'v env \<Rightarrow> file_key \<Rightarrow> bool" where
  "fetch_ok e k = (case k of (smb, interval, yr, month) \<Rightarrow>
     (case download_monthly_data e (\<lambda>p. None) smb interval month yr of
        Inl err \<Rightarrow> False | Inr res \<Rightarrow> fst res))"

definition flatten :: "(string \<times> (string \<times> int \<times> int) list) list \<Rightarrow> file_key list" where
  "flatten d = concat (map (\<lambda>(smb, file_list). map (\<lambda>f. (smb, f)) file_list) d)"

section \<open>Concrete inputs\<close>

text \<open>
  A symbol entry with two strategies on the one-minute chart and one on the hourly chart,
  and the same entry with the strategies reordered and the repetition removed.
\<close>

definition cfg_three :: symbol_cfg where
  "cfg_three = \<lparr>symbol = ''EURUSD'', year = 2024, months = [1, 2],
     strategies = [\<lparr>tfs_tf = Some ''1m''\<rparr>, \<lparr>tfs_tf = Some ''1h''\<rparr>, \<lparr>tfs_tf = Some ''1m''\<rparr>]\<rparr>"

definition cfg_two :: symbol_cfg where
  "cfg_two = \<lparr>symbol = ''EURUSD'', year = 2024, months = [1, 2],
     strategies = [\<lparr>tfs_tf = Some ''1h''\<rparr>, \<lparr>tfs_tf = Some ''1m''\<rparr>]\<rparr>"

text \<open>
  A run on two timeframes with a warm-up of two candles. The trader requires the timeframes
  its strategies name, in their order. The files of month 1 hold four one-minute candles
  from 00:03 to 00:06 and three five-minute candles at 00:00, 00:05 and 00:10; the
  five-minute chart completes its warm-up last, at 00:05 (300 seconds). The file names are
  those of \<^verbatim>\<open>"{}-{}-{}-{:02d}.csv"\<close> under the directory \<^verbatim>\<open>data\<close>, for four-digit years.
\<close>

definition bar :: "int \<Rightarrow> unit candle" where
  "bar t = \<lparr>open_time = t, c_open = (), c_high = (), c_low = (), c_close = (), c_volume = ()\<rparr>"

definition frame :: "(int \<times> int) list \<Rightarrow> unit dataframe" where
  "frame its = \<lparr>columns = candle_columns, rows = map (\<lambda>(i, t). (i, bar t)) its\<rparr>"

definition digit :: "int \<Rightarrow> char" where
  "digit d = ''0123456789'' ! nat d"

definition two_digits :: "int \<Rightarrow> string" where
  "two_digits n = [digit (n div 10 mod 10), digit (n mod 10)]"

definition four_digits :: "int \<Rightarrow> string" where
  "four_digits n = two_digits (n div 100) @ two_digits (n mod 100)"

definition csv_name :: "string \<Rightarrow> string \<Rightarrow> int \<Rightarrow> int \<Rightarrow> string" where
  "csv_name smb interval yr month =
     ''data/'' @ smb @ ''-'' @ interval @ ''-'' @ four_digits yr @ ''-'' @ two_digits month @ ''.csv''"

definition every_five :: "int list" where
  "every_five = [0, 5, 10, 15, 20, 25, 30, 35, 40, 45, 50, 55]"

definition env_a :: "unit env" where
  "env_a = \<lparr>csv_data_path = csv_name, NUM_KLINE_INIT = 2,
     tf_cron = [(''1m'', \<lparr>cron_hour = None, cron_minute = None\<rparr>),
                (''5m'', \<lparr>cron_hour = None, cron_minute = Some every_five\<rparr>)],
     get_required_tfs = (\<lambda>cfg. rev (collect_intervals (strategies cfg) [])),
     exchange_config_file = False, has_mt5 = False, mt5_initialize = False,
     mt5_login = False, mt5_account_info = False,
     copy_rates_range = (\<lambda>smb interval yr month. RatesNone), time_timezone = 0,
     quicksort_ties = (\<lambda>keys i. 0)\<rparr>"

definition store_a :: "unit storage" where
  "store_a = map_of
     [(''data/EURUSD-1m-2024-01.csv'', Csv (map bar [180, 240, 300, 360])),
      (''data/EURUSD-5m-2024-01.csv'', Csv (map bar [0, 300, 600]))]"

definition cfg_a :: symbol_cfg where
  "cfg_a = \<lparr>symbol = ''EURUSD'', year = 2024, months = [1],
     strategies = [\<lparr>tfs_tf = Some ''1m''\<rparr>, \<lparr>tfs_tf = Some ''5m''\<rparr>]\<rparr>"


text \<open>The charts the loading loop builds from this storage, and their alignment.\<close>

definition charts_a :: "(tf \<times> unit dataframe) list" where
  "charts_a = [(''1m'', frame [(0, 180), (1, 240), (2, 300), (3, 360)]),
               (''5m'', frame [(0, 0), (1, 300), (2, 600)])]"

definition aligned_a :: "unit aligned" where
  "aligned_a = \<lparr>al_max_time = 300, al_end_time = 600,
     tfs_chart_init = [(''1m'', frame [(0, 240), (1, 300)]), (''5m'', frame [(0, 0), (1, 300)])],
     tfs_chart_rest = [(''1m'', frame [(2, 360)]), (''5m'', frame [(2, 600)])]\<rparr>"

text \<open>
  The same run when the five-minute file holds one candle only, and when the one-minute
  file is there with zero bytes.
\<close>

definition store_b :: "unit storage" where
  "store_b = map_of
     [(''data/EURUSD-1m-2024-01.csv'', Csv (map bar [180, 240, 300, 360])),
      (''data/EURUSD-5m-2024-01.csv'', Csv (map bar [0]))]"

definition store_z :: "unit storage" where
  "store_z = map_of
     [(''data/EURUSD-1m-2024-01.csv'', ZeroBytes),
      (''data/EURUSD-5m-2024-01.csv'', Csv (map bar [0, 300, 600]))]"

text \<open>
  A symbol whose only strategy runs on the four-hour chart, which is no key of \<^verbatim>\<open>tf_cron\<close>
  here; and a one-minute symbol whose configuration lists month 1 twice, with a warm-up of
  one candle.
\<close>

definition cfg_4h :: symbol_cfg where
  "cfg_4h = cfg_a\<lparr>strategies := [\<lparr>tfs_tf = Some ''4h''\<rparr>]\<rparr>"

definition store_4h :: "unit storage" where
  "store_4h = map_of [(''data/EURUSD-4h-2024-01.csv'', Csv (map bar [0, 14400, 28800]))]"

definition charts_4h :: "(tf \<times> unit dataframe) list" where
  "charts_4h = [(''4h'', frame [(0, 0), (1, 14400), (2, 28800)])]"

definition aligned_4h :: "unit aligned" where
  "aligned_4h = \<lparr>al_max_time = 14400, al_end_time = 28800,
     tfs_chart_init = [(''4h'', frame [(0, 0), (1, 14400)])],
     tfs_chart_rest = [(''4h'', frame [(2, 28800)])]\<rparr>"

definition env_1m :: "unit env" where
  "env_1m = env_a\<lparr>NUM_KLINE_INIT := 1\<rparr>"

definition store_1m :: "unit storage" where
  "store_1m = map_of [(''data/EURUSD-1m-2024-01.csv'', Csv (map bar [0, 60, 120]))]"

definition cfg_twice :: symbol_cfg where
  "cfg_twice = cfg_a\<lparr>months := [1, 1], strategies := [\<lparr>tfs_tf = Some ''1m''\<rparr>]\<rparr>"

definition charts_twice :: "(tf \<times> unit dataframe) list" where
  "charts_twice = [(''1m'', frame [(0, 0), (1, 0), (2, 60), (3, 60), (4, 120), (5, 120)])]"

definition aligned_twice :: "unit aligned" where
  "aligned_twice = \<lparr>al_max_time = 0, al_end_time = 120,
     tfs_chart_init = [(''1m'', frame [(0, 0)])],
     tfs_chart_rest = [(''1m'', frame [(1, 60), (2, 60), (3, 120), (4, 120)])]\<rparr>"

text \<open>
  An environment with an exchange configuration and a broker that has rows for the
  five-minute chart only; the empty data directory; a data directory with the files of
  three symbol entries.
\<close>

definition env_dl :: "unit env" where
  "env_dl = env_a\<lparr>exchange_config_file := True, has_mt5 := True, mt5_initialize := True,
     mt5_login := True, mt5_account_info := True,
     copy_rates_range :=
       (\<lambda>smb interval yr month. if interval = ''5m'' then Rates [bar 0] else RatesNone)\<rparr>"

definition no_files :: "unit storage" where
  "no_files = (\<lambda>p. None)"

definition store_all :: "unit storage" where
  "store_all = map_of
     [(''data/EURUSD-1m-2024-01.csv'', Csv (map bar [180, 240, 300, 360])),
      (''data/EURUSD-5m-2024-01.csv'', Csv (map bar [0, 300, 600])),
      (''data/EURUSD-4h-2024-01.csv'', Csv (map bar [0, 14400, 28800]))]"

definition cfgs_three :: "symbol_cfg list" where
  "cfgs_three = [cfg_a, cfg_4h, cfg_twice]"

text \<open>A symbol entry that asks for a thirteenth month.\<close>

definition cfg_13 :: symbol_cfg where
  "cfg_13 = cfg_a\<lparr>months := [13]\<rparr>"

section \<open>Requirement resolver: properties\<close>

lemma set_collect_intervals:
  "set (collect_intervals ss acc) = set acc \<union> {t. t \<noteq> [] \<and> (\<exists>s\<in>set ss. tfs_tf s = Some t)}"
  by (induction ss arbitrary: acc) (auto split: option.splits)

lemma distinct_collect_intervals:
  "distinct acc \<Longrightarrow> distinct (collect_intervals ss acc)"
  by (induction ss arbitrary: acc) (auto split: option.splits)

lemma set_add_months:
  "set (add_months smb i yr ms acc) = set acc \<union> (\<lambda>m. (smb, i, yr, m)) ` set ms"
  by (induction ms arbitrary: acc) auto

lemma distinct_add_months:
  "distinct acc \<Longrightarrow> distinct (add_months smb i yr ms acc)"
  by (induction ms arbitrary: acc) auto

lemma set_add_intervals:
  "set (add_intervals smb yr ms is acc) =
     set acc \<union> (\<lambda>(i, m). (smb, i, yr, m)) ` (set is \<times> set ms)"
  by (induction "is" arbitrary: acc) (auto simp: set_add_months)

lemma distinct_add_intervals:
  "distinct acc \<Longrightarrow> distinct (add_intervals smb yr ms is acc)"
  by (induction "is" arbitrary: acc) (auto simp: distinct_add_months)

lemma strategy_timeframes_collect:
  "strategy_timeframes cfg = set (collect_intervals (strategies cfg) [])"
  by (simp add: strategy_timeframes_def set_collect_intervals)

lemma set_add_symbol_cfg:
  "set (add_symbol_cfg cfg acc) = set acc \<union> cartesian cfg"
  unfolding add_symbol_cfg_def cartesian_def strategy_timeframes_def
    set_add_intervals set_collect_intervals
  by auto

lemma distinct_add_symbol_cfg:
  "distinct acc \<Longrightarrow> distinct (add_symbol_cfg cfg acc)"
  by (simp add: add_symbol_cfg_def distinct_add_intervals)

lemma set_add_symbol_cfgs:
  "set (add_symbol_cfgs cfgs acc) = set acc \<union> (\<Union>cfg\<in>set cfgs. cartesian cfg)"
  by (induction cfgs arbitrary: acc) (auto simp: set_add_symbol_cfg)

lemma distinct_add_symbol_cfgs:
  "distinct acc \<Longrightarrow> distinct (add_symbol_cfgs cfgs acc)"
  by (induction cfgs arbitrary: acc) (auto simp: distinct_add_symbol_cfg)

lemma strategy_timeframes_image:
  "strategy_timeframes cfg = {t. t \<noteq> [] \<and> Some t \<in> tfs_tf ` set (strategies cfg)}"
proof -
  have "(\<exists>s\<in>set (strategies cfg). tfs_tf s = Some t) \<longleftrightarrow>
        Some t \<in> tfs_tf ` set (strategies cfg)" for t
    by force
  then show ?thesis unfolding strategy_timeframes_def by simp
qed

lemma card_cartesian:
  "card (cartesian cfg) = card (strategy_timeframes cfg) * card (set (months cfg))"
proof -
  have "inj_on (\<lambda>(i, m). (symbol cfg, i, year cfg, m))
          (strategy_timeframes cfg \<times> set (months cfg))"
    by (auto simp: inj_on_def)
  then show ?thesis
    by (simp add: cartesian_def card_image card_cartesian_product)
qed

text \<open>
  C6. The required files are a set (no repetition) and are the union over the symbol
  entries of the cartesian product of the entry's distinct strategy timeframes with its
  months, under its symbol and year. An entry whose months do not repeat contributes
  exactly that product, of size |distinct timeframes| * |months|. The result depends on an
  entry's strategies only through the set of timeframes they name: repeating a strategy on
  the same timeframe or reordering the strategies changes nothing.
\<close>

theorem required_files_cartesian:
  "distinct (get_required_data_files cfgs) \<and>
   set (get_required_data_files cfgs) = (\<Union>cfg\<in>set cfgs. cartesian cfg) \<and>
   (\<forall>cfg\<in>set cfgs. distinct (months cfg) \<longrightarrow>
      set (add_symbol_cfg cfg []) = cartesian cfg \<and>
      length (add_symbol_cfg cfg []) = card (strategy_timeframes cfg) * length (months cfg)) \<and>
   (\<forall>cfgs' :: symbol_cfg list.
      list_all2 (\<lambda>c c'. symbol c' = symbol c \<and> year c' = year c \<and> months c' = months c \<and>
                   tfs_tf ` set (strategies c') = tfs_tf ` set (strategies c)) cfgs cfgs' \<longrightarrow>
      set (get_required_data_files cfgs') = set (get_required_data_files cfgs))"
proof (intro conjI ballI impI allI)
  show "distinct (get_required_data_files cfgs)"
    by (simp add: get_required_data_files_def distinct_add_symbol_cfgs)
  show "set (get_required_data_files cfgs) = (\<Union>cfg\<in>set cfgs. cartesian cfg)"
    by (simp add: get_required_data_files_def set_add_symbol_cfgs)
next
  fix cfg assume "cfg \<in> set cfgs" "distinct (months cfg)"
  show "set (add_symbol_cfg cfg []) = cartesian cfg"
    by (simp add: set_add_symbol_cfg)
  have "length (add_symbol_cfg cfg []) = card (set (add_symbol_cfg cfg []))"
    by (simp add: distinct_card distinct_add_symbol_cfg)
  also have "\<dots> = card (strategy_timeframes cfg) * length (months cfg)"
    using \<open>distinct (months cfg)\<close>
    by (simp add: set_add_symbol_cfg card_cartesian distinct_card)
  finally show
    "length (add_symbol_cfg cfg []) = card (strategy_timeframes cfg) * length (months cfg)" .
next
  fix cfgs' :: "symbol_cfg list"
  assume a: "list_all2 (\<lambda>c c'. symbol c' = symbol c \<and> year c' = year c \<and> months c' = months c \<and>
                tfs_tf ` set (strategies c') = tfs_tf ` set (strategies c)) cfgs cfgs'"
  have "list_all2 (\<lambda>c c'. cartesian c' = cartesian c) cfgs cfgs'"
    by (rule list_all2_mono[OF a]) (simp add: cartesian_def strategy_timeframes_image)
  then have "(\<Union>cfg\<in>set cfgs'. cartesian cfg) = (\<Union>cfg\<in>set cfgs. cartesian cfg)"
    by (induction rule: list_all2_induct) auto
  then show "set (get_required_data_files cfgs') = set (get_required_data_files cfgs)"
    by (simp add: get_required_data_files_def set_add_symbol_cfgs)
qed

theorem required_files_cartesian_witness:
  "distinct (months cfg_three) \<and>
   card (strategy_timeframes cfg_three) = 2 \<and>
   length (add_symbol_cfg cfg_three []) = 4 \<and>
   set (get_required_data_files [cfg_two]) = set (get_required_data_files [cfg_three])"
proof -
  have d: "distinct (months cfg_three)"
    by (simp add: cfg_three_def)
  have c: "card (strategy_timeframes cfg_three) = 2"
    by (simp add: strategy_timeframes_collect cfg_three_def)
  have l: "list_all2 (\<lambda>c c'. symbol c' = symbol c \<and> year c' = year c \<and> months c' = months c \<and>
             tfs_tf ` set (strategies c') = tfs_tf ` set (strategies c)) [cfg_three] [cfg_two]"
    by (auto simp: cfg_three_def cfg_two_def)
  have m: "length (months cfg_three) = 2"
    by (simp add: cfg_three_def)
  from required_files_cartesian [of "[cfg_three]"] d c l m show ?thesis
    by simp
qed

section \<open>Monthly data store: properties\<close>

lemma load_missing_file:
  "st (csv_data_path e smb interval yr month) = None \<Longrightarrow>
   load_mt5_klines_monthly_data e st smb interval month yr =
     ([LogWarning (DataFileNotFound (csv_data_path e smb interval yr month))],
      Inr \<lparr>columns = candle_columns, rows = []\<rparr>)"
  by (simp add: load_mt5_klines_monthly_data_def empty_frame_def)

lemma load_header_only_file:
  "st (csv_data_path e smb interval yr month) = Some (Csv []) \<Longrightarrow>
   load_mt5_klines_monthly_data e st smb interval month yr =
     ([LogWarning (EmptyDataFile (csv_data_path e smb interval yr month))],
      Inr \<lparr>columns = candle_columns, rows = []\<rparr>)"
  by (simp add: load_mt5_klines_monthly_data_def empty_frame_def read_csv_def len_def
      reset_index_def)

text \<open>
  C8. The load of a month whose file is present but holds zero bytes: \<^verbatim>\<open>pd.read_csv\<close>
  raises \<^verbatim>\<open>EmptyDataError\<close> before the test \<^verbatim>\<open>len(df) == 0\<close> is reached, so the load raises
  and returns no series.
\<close>

theorem load_zero_byte_file_raises:
  "load_mt5_klines_monthly_data e (st(csv_data_path e smb interval yr month \<mapsto> ZeroBytes))
     smb interval month yr = ([], Inl EmptyDataError)"
  by (simp add: load_mt5_klines_monthly_data_def read_csv_def)

section \<open>Timeframe alignment: properties\<close>


lemma map_fst_reset_index: "map fst (reset_index cs) = map int [0..<length cs]"
  by (simp add: reset_index_def)

lemma map_snd_reset_index: "map snd (reset_index cs) = cs"
  by (simp add: reset_index_def)

lemma length_reset_index: "length (reset_index cs) = length cs"
  by (simp add: reset_index_def)

lemma sorted_filter_le_take:
  "sorted (map f xs) \<Longrightarrow>
   filter (\<lambda>x. f x \<le> (t::int)) xs = take (length (filter (\<lambda>x. f x \<le> t) xs)) xs"
proof (induction xs)
  case Nil
  then show ?case by simp
next
  case (Cons x xs)
  show ?case
  proof (cases "f x \<le> t")
    case True
    with Cons show ?thesis by simp
  next
    case False
    with Cons.prems have "\<forall>y\<in>set xs. \<not> f y \<le> t" by auto
    then have "filter (\<lambda>x. f x \<le> t) xs = []" by (simp add: filter_empty_conv)
    with False show ?thesis by simp
  qed
qed

lemma sorted_filter_gt_drop:
  "sorted (map f xs) \<Longrightarrow>
   filter (\<lambda>x. (t::int) < f x) xs = drop (length (filter (\<lambda>x. f x \<le> t) xs)) xs"
proof (induction xs)
  case Nil
  then show ?case by simp
next
  case (Cons x xs)
  show ?case
  proof (cases "f x \<le> t")
    case True
    with Cons show ?thesis by simp
  next
    case False
    with Cons.prems have a: "\<forall>y\<in>set xs. \<not> f y \<le> t" by auto
    then have "filter (\<lambda>x. f x \<le> t) xs = []" by (simp add: filter_empty_conv)
    moreover from a have "filter (\<lambda>x. t < f x) xs = xs" by (auto simp: filter_id_conv)
    ultimately show ?thesis using False by simp
  qed
qed

lemma length_filter_prefix:
  assumes "n \<le> length xs" "\<forall>j<n. P (xs ! j)"
  shows "n \<le> length (filter P xs)"
proof -
  have "filter P (take n xs) = take n xs"
    using assms by (auto simp: filter_id_conv in_set_conv_nth)
  then have "length (filter P (take n xs)) = n" using assms by simp
  moreover have "length (filter P xs) = length (filter P (take n xs)) + length (filter P (drop n xs))"
    by (metis append_take_drop_id filter_append length_append)
  ultimately show ?thesis by simp
qed

lemma shift_upt:
  "a \<le> b \<Longrightarrow> map (\<lambda>i. int i - int a) [b..<c] = map int [b - a..<c - a]"
  by (rule nth_equalityI) (auto simp: of_nat_diff)

lemma load_months_nonempty:
  "load_months e st smb t yr ms acc = (w, Inr md) \<Longrightarrow>
   \<forall>df\<in>set acc. rows df \<noteq> [] \<Longrightarrow> \<forall>df\<in>set md. rows df \<noteq> []"
proof (induction ms arbitrary: acc w md)
  case Nil
  then show ?case by simp
next
  case (Cons m ms)
  obtain w1 r1 where l: "load_klines_monthly_data e st smb t m yr = (w1, r1)"
    by (cases "load_klines_monthly_data e st smb t m yr")
  show ?case
  proof (cases r1)
    case (Inl err)
    with Cons.prems l show ?thesis by simp
  next
    case (Inr month_data)
    let ?acc = "if len month_data > 0 then acc @ [month_data] else acc"
    obtain w2 r2 where l2: "load_months e st smb t yr ms ?acc = (w2, r2)"
      by (cases "load_months e st smb t yr ms ?acc")
    with Cons.prems(1) l Inr have r2: "r2 = Inr md" by simp
    have "\<forall>df\<in>set ?acc. rows df \<noteq> []"
      using Cons.prems(2) by (auto simp: len_def)
    from Cons.IH[OF l2[unfolded r2] this] show ?thesis .
  qed
qed

lemma load_chart_loaded:
  assumes "load_chart e st cfg t = (w, Inr df)"
  shows "loaded (NUM_KLINE_INIT e) df"
proof -
  obtain w1 r1 where l: "load_months e st (symbol cfg) t (year cfg) (sort (months cfg)) [] = (w1, r1)"
    by (cases "load_months e st (symbol cfg) t (year cfg) (sort (months cfg)) []")
  from assms l obtain md where r1: "r1 = Inr md"
    by (cases r1) (auto simp: load_chart_def)
  from assms l r1 have ne: "md \<noteq> []"
    by (auto simp: load_chart_def split: if_splits)
  from assms l r1 ne have df: "df = sort_values e (concat_frames md)"
    and n: "NUM_KLINE_INIT e \<le> len df"
    by (auto simp: load_chart_def Let_def split: if_splits)
  have "\<forall>d\<in>set md. rows d \<noteq> []"
    using load_months_nonempty[OF l[unfolded r1]] by simp
  with ne have "concat (map (\<lambda>df. map snd (rows df)) md) \<noteq> []"
    by (cases md) auto
  moreover have "length (rows df) = length (concat (map (\<lambda>df. map snd (rows df)) md))"
    by (simp add: df sort_values_def Let_def concat_frames_def length_reset_index
        map_snd_reset_index)
  ultimately have "rows df \<noteq> []"
    by (metis length_0_conv)
  moreover have "map fst (rows df) = map int [0..<length (rows df)]"
    by (simp add: df sort_values_def Let_def map_fst_reset_index length_reset_index)
  moreover have "sorted (map (\<lambda>r. open_time (snd r)) (rows df))"
  proof -
    have "\<exists>cs. map snd (rows df) = sort_key open_time cs"
      unfolding df sort_values_def Let_def by (simp add: map_snd_reset_index) blast
    then obtain cs where cs: "map snd (rows df) = sort_key open_time cs" by blast
    have "map (\<lambda>r. open_time (snd r)) (rows df) = map open_time (map snd (rows df))"
      by simp
    also have "\<dots> = map open_time (sort_key open_time cs)"
      by (simp only: cs)
    finally show ?thesis by simp
  qed
  ultimately show ?thesis using n by (simp add: loaded_def len_def)
qed

lemma set_dict_set: "set (dict_set d k v) \<subseteq> insert (k, v) (set d)"
  by (induction d k v rule: dict_set.induct) auto

lemma keys_dict_set: "fst ` set (dict_set d k v) = insert k (fst ` set d)"
  by (induction d k v rule: dict_set.induct) auto

lemma map_of_dict_set: "map_of (dict_set d k v) k' = (if k' = k then Some v else map_of d k')"
  by (induction d k v rule: dict_set.induct) auto

lemma load_charts_loaded:
  "load_charts e st cfg ts acc = (w, Inr d) \<Longrightarrow>
   \<forall>x\<in>set acc. loaded (NUM_KLINE_INIT e) (snd x) \<Longrightarrow>
   (\<forall>x\<in>set d. loaded (NUM_KLINE_INIT e) (snd x)) \<and> fst ` set d = fst ` set acc \<union> set ts"
proof (induction ts arbitrary: acc w d)
  case Nil
  then show ?case by simp
next
  case (Cons t ts)
  obtain w1 r1 where l: "load_chart e st cfg t = (w1, r1)"
    by (cases "load_chart e st cfg t")
  show ?case
  proof (cases r1)
    case (Inl err)
    with Cons.prems l show ?thesis by simp
  next
    case (Inr chart_df)
    obtain w2 r2 where l2: "load_charts e st cfg ts (dict_set acc t chart_df) = (w2, r2)"
      by (cases "load_charts e st cfg ts (dict_set acc t chart_df)")
    with Cons.prems(1) l Inr have r2: "r2 = Inr d" by simp
    have "loaded (NUM_KLINE_INIT e) chart_df"
      using load_chart_loaded l Inr by blast
    then have "\<forall>x\<in>set (dict_set acc t chart_df). loaded (NUM_KLINE_INIT e) (snd x)"
      using Cons.prems(2) set_dict_set[of acc t chart_df] by auto
    from Cons.IH[OF l2[unfolded r2] this] show ?thesis
      by (auto simp: keys_dict_set)
  qed
qed

lemma rows_shift_index:
  "rows (shift_index s df) = map (\<lambda>r. (fst r - s, snd r)) (rows df)"
  by (simp add: shift_index_def)

lemma split_one:
  fixes df :: "'v dataframe"
  assumes ld: "loaded n df" and n: "0 < n"
    and mt: "open_time (snd (rows df ! (n - 1))) \<le> mt"
  shows "\<exists>s. index0 (tail_slice n (mask_le df mt)) = Inr s \<and>
             init_ok n mt (shift_index s (tail_slice n (mask_le df mt))) \<and>
             rest_ok n mt (shift_index s (mask_gt df mt))"
proof -
  define xs where "xs = rows df"
  define f where "f = (\<lambda>r :: int \<times> 'v candle. open_time (snd r))"
  define k where "k = length (filter (\<lambda>r. f r \<le> mt) xs)"
  have idx: "map fst xs = map int [0..<length xs]" and srt: "sorted (map f xs)"
    and nl: "n \<le> length xs"
    using ld by (simp_all add: loaded_def xs_def f_def)
  have le: "filter (\<lambda>r. f r \<le> mt) xs = take k xs"
    unfolding k_def using srt by (rule sorted_filter_le_take)
  have gt: "filter (\<lambda>r. mt < f r) xs = drop k xs"
    unfolding k_def using srt by (rule sorted_filter_gt_drop)
  have kl: "k \<le> length xs" by (simp add: k_def)
  have "\<forall>j<n. f (xs ! j) \<le> mt"
  proof (intro allI impI)
    fix j assume j: "j < n"
    then have "map f xs ! j \<le> map f xs ! (n - 1)"
      using srt nl n by (intro sorted_nth_mono) auto
    then show "f (xs ! j) \<le> mt"
      using j nl n mt by (simp add: xs_def f_def)
  qed
  with nl have nk: "n \<le> k"
    unfolding k_def by (intro length_filter_prefix) auto
  define ini where "ini = drop (k - n) (take k xs)"
  have rows_init: "rows (tail_slice n (mask_le df mt)) = ini"
    using n kl le[unfolded f_def] by (simp add: tail_slice_def mask_le_def ini_def xs_def[symmetric])
  have rows_rest: "rows (mask_gt df mt) = drop k xs"
    using gt[unfolded f_def] by (simp add: mask_gt_def xs_def[symmetric])
  have fst_ini: "map fst ini = map int [k - n..<k]"
  proof -
    have "map fst ini = drop (k - n) (take k (map fst xs))"
      by (simp add: ini_def drop_map take_map)
    also have "\<dots> = map int (drop (k - n) (take k [0..<length xs]))"
      by (simp add: idx drop_map take_map)
    also have "take k [0..<length xs] = [0..<k]"
      using kl by (simp add: take_upt)
    also have "drop (k - n) [0..<k] = [k - n..<k]"
      by (simp add: drop_upt)
    finally show ?thesis .
  qed
  have len_ini: "length ini = n"
    using nk kl by (simp add: ini_def)
  with n have "ini \<noteq> []" by auto
  then obtain r0 rs where ini_cons: "ini = r0 # rs" by (cases ini) auto
  with fst_ini have "fst r0 = int (k - n)"
    using n nk by (cases "[k - n..<k]") (auto simp: upt_conv_Cons)
  with ini_cons have i0: "index0 (tail_slice n (mask_le df mt)) = Inr (int (k - n))"
    by (simp add: index0_def rows_init)
  have fst_rest: "map fst (drop k xs) = map int [k..<length xs]"
  proof -
    have "map fst (drop k xs) = drop k (map fst xs)" by (simp add: drop_map)
    also have "\<dots> = map int (drop k [0..<length xs])" by (simp add: idx drop_map)
    finally show ?thesis by (simp add: drop_upt)
  qed
  have a: "map fst (rows (shift_index (int (k - n)) (tail_slice n (mask_le df mt)))) = map int [0..<n]"
  proof -
    have "map fst (rows (shift_index (int (k - n)) (tail_slice n (mask_le df mt)))) =
          map (\<lambda>i. i - int (k - n)) (map fst ini)"
      by (simp add: rows_shift_index rows_init comp_def)
    also have "\<dots> = map (\<lambda>i. int i - int (k - n)) [k - n..<k]"
      by (simp add: fst_ini comp_def)
    also have "\<dots> = map int [(k - n) - (k - n)..<k - (k - n)]"
      by (rule shift_upt) simp
    finally show ?thesis using nk by simp
  qed
  have b: "map fst (rows (shift_index (int (k - n)) (mask_gt df mt))) =
           map int [n..<n + length (rows (shift_index (int (k - n)) (mask_gt df mt)))]"
  proof -
    have "map fst (rows (shift_index (int (k - n)) (mask_gt df mt))) =
          map (\<lambda>i. i - int (k - n)) (map fst (drop k xs))"
      by (simp add: rows_shift_index rows_rest comp_def)
    also have "\<dots> = map (\<lambda>i. int i - int (k - n)) [k..<length xs]"
      by (simp add: fst_rest comp_def)
    also have "\<dots> = map int [k - (k - n)..<length xs - (k - n)]"
      by (rule shift_upt) simp
    also have "k - (k - n) = n" using nk by simp
    also have "length xs - (k - n) = n + length (rows (shift_index (int (k - n)) (mask_gt df mt)))"
      using nk kl by (simp add: rows_shift_index rows_rest)
    finally show ?thesis .
  qed
  have c: "\<forall>r\<in>set ini. f r \<le> mt"
  proof
    fix r assume "r \<in> set ini"
    then have "r \<in> set (take k xs)" unfolding ini_def by (rule in_set_dropD)
    then have "r \<in> set (filter (\<lambda>r. f r \<le> mt) xs)" by (simp only: le)
    then show "f r \<le> mt" by simp
  qed
  have d: "\<forall>r\<in>set (drop k xs). mt < f r"
  proof
    fix r assume "r \<in> set (drop k xs)"
    then have "r \<in> set (filter (\<lambda>r. mt < f r) xs)" by (simp only: gt)
    then show "mt < f r" by simp
  qed
  have e: "sorted (map f ini)"
    unfolding ini_def using srt by (simp add: drop_map[symmetric] take_map[symmetric] sorted_wrt_drop sorted_wrt_take)
  have g: "sorted (map f (drop k xs))"
    using srt by (simp add: drop_map[symmetric] sorted_wrt_drop)
  have "init_ok n mt (shift_index (int (k - n)) (tail_slice n (mask_le df mt)))"
    unfolding init_ok_def using a c e
    by (simp add: rows_shift_index rows_init comp_def f_def)
  moreover have "rest_ok n mt (shift_index (int (k - n)) (mask_gt df mt))"
    unfolding rest_ok_def using b d g
    by (simp add: rows_shift_index rows_rest comp_def f_def)
  ultimately show ?thesis using i0 by blast
qed

lemma iloc_open_time_pos:
  "j < length (rows df) \<Longrightarrow> iloc_open_time df (int j) = Inr (open_time (snd (rows df ! j)))"
  by (simp add: iloc_open_time_def Let_def)

lemma iloc_open_time_last:
  "rows df \<noteq> [] \<Longrightarrow> iloc_open_time df (- 1) = Inr (open_time (snd (last (rows df))))"
proof -
  assume ne: "rows df \<noteq> []"
  then have l: "0 < length (rows df)" by simp
  then have "nat (int (length (rows df)) + - 1) = length (rows df) - 1" by simp
  with l ne show ?thesis
    by (simp add: iloc_open_time_def Let_def last_conv_nth)
qed

lemma iloc_open_times_start:
  "\<forall>x\<in>set d. loaded n (snd x) \<Longrightarrow> 0 < n \<Longrightarrow>
   iloc_open_times d (int n - 1) = Inr (map (\<lambda>x. open_time (snd (rows (snd x) ! (n - 1)))) d)"
proof (induction d)
  case Nil
  then show ?case by simp
next
  case (Cons x d)
  obtain t df where x: "x = (t, df)" by (cases x)
  from Cons.prems x have "n - 1 < length (rows df)" by (auto simp: loaded_def)
  then have "iloc_open_time df (int (n - 1)) = Inr (open_time (snd (rows df ! (n - 1))))"
    by (rule iloc_open_time_pos)
  moreover have "int (n - 1) = int n - 1" using Cons.prems by simp
  ultimately show ?case using Cons x by simp
qed

lemma iloc_open_times_end:
  "\<forall>x\<in>set d. loaded n (snd x) \<Longrightarrow>
   iloc_open_times d (- 1) = Inr (map (\<lambda>x. open_time (snd (last (rows (snd x))))) d)"
proof (induction d)
  case Nil
  then show ?case by simp
next
  case (Cons x d)
  obtain t df where x: "x = (t, df)" by (cases x)
  from Cons.prems x have "rows df \<noteq> []" by (auto simp: loaded_def)
  then have "iloc_open_time df (- 1) = Inr (open_time (snd (last (rows df))))"
    by (rule iloc_open_time_last)
  then show ?case using Cons x by simp
qed

lemma py_max_Max: "xs \<noteq> [] \<Longrightarrow> py_max xs = Inr (Max (set xs))"
  by (cases xs) (simp_all add: Max.set_eq_fold[symmetric])

lemma py_max_empty: "py_max xs = Inr m \<Longrightarrow> xs \<noteq> []"
  by (cases xs) simp_all

lemma split_charts_ok:
  "\<forall>x\<in>set d. loaded n (snd x) \<and> open_time (snd (rows (snd x) ! (n - 1))) \<le> mt \<Longrightarrow> 0 < n \<Longrightarrow>
   \<exists>inits rests. split_charts n mt d = Inr (inits, rests) \<and>
     map fst inits = map fst d \<and> map fst rests = map fst d \<and>
     (\<forall>x\<in>set inits. init_ok n mt (snd x)) \<and> (\<forall>x\<in>set rests. rest_ok n mt (snd x))"
proof (induction d)
  case Nil
  then show ?case by simp
next
  case (Cons x d)
  obtain t df where x: "x = (t, df)" by (cases x)
  from Cons.prems x have "loaded n df" "open_time (snd (rows df ! (n - 1))) \<le> mt" by auto
  from split_one[OF this(1) Cons.prems(2) this(2)] obtain s where
    s: "index0 (tail_slice n (mask_le df mt)) = Inr s"
       "init_ok n mt (shift_index s (tail_slice n (mask_le df mt)))"
       "rest_ok n mt (shift_index s (mask_gt df mt))" by blast
  from Cons.IH Cons.prems obtain inits rests where
    ih: "split_charts n mt d = Inr (inits, rests)" "map fst inits = map fst d"
        "map fst rests = map fst d" "\<forall>x\<in>set inits. init_ok n mt (snd x)"
        "\<forall>x\<in>set rests. rest_ok n mt (snd x)" by auto
  show ?case using s ih x by (simp add: Let_def)
qed

lemma align_ok:
  fixes d :: "(tf \<times> 'v dataframe) list"
  assumes ld: "\<forall>x\<in>set d. loaded n (snd x)" and n: "0 < n" and al: "align n d = Inr al"
  shows "d \<noteq> [] \<and>
     al_max_time al = Max ((\<lambda>x. open_time (snd (rows (snd x) ! (n - 1)))) ` set d) \<and>
     al_end_time al = Max ((\<lambda>x. open_time (snd (last (rows (snd x))))) ` set d) \<and>
     map fst (tfs_chart_init al) = map fst d \<and> map fst (tfs_chart_rest al) = map fst d \<and>
     (\<forall>x\<in>set (tfs_chart_init al). init_ok n (al_max_time al) (snd x)) \<and>
     (\<forall>x\<in>set (tfs_chart_rest al). rest_ok n (al_max_time al) (snd x))"
proof -
  let ?starts = "map (\<lambda>x. open_time (snd (rows (snd x) ! (n - 1)))) d"
  let ?ends = "map (\<lambda>x. open_time (snd (last (rows (snd x))))) d"
  have s: "iloc_open_times d (int n - 1) = Inr ?starts"
    using ld n by (rule iloc_open_times_start)
  have e: "iloc_open_times d (- 1) = Inr ?ends"
    using ld by (rule iloc_open_times_end)
  have ne: "d \<noteq> []"
  proof
    assume "d = []"
    with al show False by (simp add: align_def)
  qed
  then have ms: "py_max ?starts = Inr (Max (set ?starts))"
    and me: "py_max ?ends = Inr (Max (set ?ends))"
    by (simp_all add: py_max_Max)
  let ?mt = "Max (set ?starts)"
  have "\<forall>x\<in>set d. loaded n (snd x) \<and> open_time (snd (rows (snd x) ! (n - 1))) \<le> ?mt"
    using ld by auto
  from split_charts_ok[OF this n] obtain inits rests where
    sp: "split_charts n ?mt d = Inr (inits, rests)" "map fst inits = map fst d"
        "map fst rests = map fst d" "\<forall>x\<in>set inits. init_ok n ?mt (snd x)"
        "\<forall>x\<in>set rests. rest_ok n ?mt (snd x)" by blast
  from al s e ms me sp(1) have
    "al = \<lparr>al_max_time = ?mt, al_end_time = Max (set ?ends),
           tfs_chart_init = inits, tfs_chart_rest = rests\<rparr>"
    by (simp add: align_def)
  with sp ne show ?thesis by simp
qed

lemma loaded_charts_a:
  "load_charts env_a store_a cfg_a (get_required_tfs env_a cfg_a) [] = ([], Inr charts_a)"
  by code_simp

lemma align_charts_a: "align (NUM_KLINE_INIT env_a) charts_a = Inr aligned_a"
  by code_simp

lemma init_ok_length: "init_ok n mt i \<Longrightarrow> length (rows i) = n"
proof -
  assume "init_ok n mt i"
  then have "length (map fst (rows i)) = length (map int [0..<n])"
    by (simp only: init_ok_def)
  then show ?thesis by simp
qed

text \<open>
  C2. After a successful alignment with a positive warm-up count, \<^verbatim>\<open>max_time\<close> (the global
  start) is the maximum over the required timeframes of the open time of the chart's
  candle at index warm-up count - 1; the charts, the init slices and the replay slices
  have the required timeframes as keys; every init slice has exactly the warm-up count of
  rows and its last open time is at most \<^verbatim>\<open>max_time\<close>; the first open time of every
  replay slice that is not empty is after \<^verbatim>\<open>max_time\<close>.
\<close>

theorem alignment_slices:
  fixes d :: "(tf \<times> 'v dataframe) list"
  assumes n: "0 < NUM_KLINE_INIT e"
    and ld: "load_charts e st cfg (get_required_tfs e cfg) [] = (w, Inr d)"
    and al: "align (NUM_KLINE_INIT e) d = Inr al"
  shows "al_max_time al =
           Max ((\<lambda>x. open_time (snd (rows (snd x) ! (NUM_KLINE_INIT e - 1)))) ` set d) \<and>
         fst ` set d = set (get_required_tfs e cfg) \<and>
         map fst (tfs_chart_init al) = map fst d \<and>
         map fst (tfs_chart_rest al) = map fst d \<and>
         (\<forall>x\<in>set (tfs_chart_init al).
            len (snd x) = NUM_KLINE_INIT e \<and>
            open_time (snd (last (rows (snd x)))) \<le> al_max_time al) \<and>
         (\<forall>x\<in>set (tfs_chart_rest al).
            rows (snd x) \<noteq> [] \<longrightarrow> al_max_time al < open_time (snd (hd (rows (snd x)))))"
proof -
  from load_charts_loaded[OF ld] have l: "\<forall>x\<in>set d. loaded (NUM_KLINE_INIT e) (snd x)"
    and k: "fst ` set d = set (get_required_tfs e cfg)" by simp_all
  note a = align_ok[OF l n al]
  have i: "len (snd x) = NUM_KLINE_INIT e \<and> open_time (snd (last (rows (snd x)))) \<le> al_max_time al"
    if "x \<in> set (tfs_chart_init al)" for x
  proof -
    from a that have ok: "init_ok (NUM_KLINE_INIT e) (al_max_time al) (snd x)" by blast
    then have len: "length (rows (snd x)) = NUM_KLINE_INIT e" by (rule init_ok_length)
    with n have "rows (snd x) \<noteq> []" by auto
    then have "last (rows (snd x)) \<in> set (rows (snd x))" by simp
    with ok have "open_time (snd (last (rows (snd x)))) \<le> al_max_time al"
      by (simp add: init_ok_def)
    with len show ?thesis by (simp add: len_def)
  qed
  have r: "al_max_time al < open_time (snd (hd (rows (snd x))))"
    if "x \<in> set (tfs_chart_rest al)" "rows (snd x) \<noteq> []" for x
  proof -
    from a that have ok: "rest_ok (NUM_KLINE_INIT e) (al_max_time al) (snd x)" by blast
    from that have "hd (rows (snd x)) \<in> set (rows (snd x))" by simp
    with ok show ?thesis by (simp add: rest_ok_def)
  qed
  from a k i r show ?thesis by blast
qed

theorem alignment_slices_witness:
  "0 < NUM_KLINE_INIT env_a \<and>
   load_charts env_a store_a cfg_a (get_required_tfs env_a cfg_a) [] = ([], Inr charts_a) \<and>
   align (NUM_KLINE_INIT env_a) charts_a = Inr aligned_a \<and>
   al_max_time aligned_a = 300 \<and>
   map (\<lambda>x. (fst x, len (snd x), open_time (snd (last (rows (snd x)))))) (tfs_chart_init aligned_a) =
     [(''1m'', 2, 300), (''5m'', 2, 300)] \<and>
   map (\<lambda>x. (fst x, open_time (snd (hd (rows (snd x)))))) (tfs_chart_rest aligned_a) =
     [(''1m'', 360), (''5m'', 600)]"
proof -
  have n: "0 < NUM_KLINE_INIT env_a" by (simp add: env_a_def)
  from alignment_slices [OF n loaded_charts_a align_charts_a]
  have "al_max_time aligned_a =
          Max ((\<lambda>x. open_time (snd (rows (snd x) ! (NUM_KLINE_INIT env_a - 1)))) ` set charts_a)"
    by blast
  then have "al_max_time aligned_a = 300"
    by (simp add: env_a_def charts_a_def frame_def bar_def)
  with n loaded_charts_a align_charts_a show ?thesis
    by (simp add: aligned_a_def frame_def bar_def len_def)
qed

text \<open>
  C7, as amended. After a successful alignment with a positive warm-up count, both slices
  of a timeframe are relabelled by one offset, the label of the init slice's first row:
  the init slice is labelled 0, 1, ..., warm-up count - 1, and the replay slice goes on
  from the warm-up count (its first row has that label, not 0).
\<close>

theorem alignment_index_labels:
  fixes d :: "(tf \<times> 'v dataframe) list"
  assumes n: "0 < NUM_KLINE_INIT e"
    and ld: "load_charts e st cfg (get_required_tfs e cfg) [] = (w, Inr d)"
    and al: "align (NUM_KLINE_INIT e) d = Inr al"
  shows "(\<forall>x\<in>set (tfs_chart_init al).
            map fst (rows (snd x)) = map int [0..<NUM_KLINE_INIT e]) \<and>
         (\<forall>x\<in>set (tfs_chart_rest al).
            map fst (rows (snd x)) = map int [NUM_KLINE_INIT e..<NUM_KLINE_INIT e + len (snd x)])"
proof -
  from load_charts_loaded[OF ld] have l: "\<forall>x\<in>set d. loaded (NUM_KLINE_INIT e) (snd x)"
    by simp
  from align_ok[OF l n al] show ?thesis
    by (simp add: init_ok_def rest_ok_def len_def)
qed

theorem alignment_index_labels_witness:
  "0 < NUM_KLINE_INIT env_a \<and>
   load_charts env_a store_a cfg_a (get_required_tfs env_a cfg_a) [] = ([], Inr charts_a) \<and>
   align (NUM_KLINE_INIT env_a) charts_a = Inr aligned_a \<and>
   map (\<lambda>x. map fst (rows (snd x))) (tfs_chart_init aligned_a) = [[0, 1], [0, 1]] \<and>
   map (\<lambda>x. map fst (rows (snd x))) (tfs_chart_rest aligned_a) = [[2], [2]]"
proof -
  have n: "0 < NUM_KLINE_INIT env_a" by (simp add: env_a_def)
  from alignment_index_labels [OF n loaded_charts_a align_charts_a]
  have "\<forall>x\<in>set (tfs_chart_init aligned_a). map fst (rows (snd x)) = map int [0..<NUM_KLINE_INIT env_a]"
    by blast
  then have "map (\<lambda>x. map fst (rows (snd x))) (tfs_chart_init aligned_a) = [[0, 1], [0, 1]]"
    by (simp add: aligned_a_def env_a_def frame_def)
  with n loaded_charts_a align_charts_a show ?thesis
    by (simp add: aligned_a_def frame_def)
qed

text \<open>
  C7, counterexample. In the run on two timeframes the replay slice of the one-minute
  chart starts with the label 2, the warm-up count.
\<close>

theorem replay_slice_index_counterexample:
  "load_charts env_a store_a cfg_a (get_required_tfs env_a cfg_a) [] = ([], Inr charts_a) \<and>
   align (NUM_KLINE_INIT env_a) charts_a = Inr aligned_a \<and>
   map_of (tfs_chart_rest aligned_a) ''1m'' = Some (frame [(2, 360)]) \<and>
   fst (hd (rows (frame [(2, 360)]))) \<noteq> 0"
  using loaded_charts_a align_charts_a by (simp add: aligned_a_def frame_def)

section \<open>Failing fast on missing data\<close>

lemma load_monthly_cases:
  "load_klines_monthly_data e st (symbol cfg) t month (year cfg) = (w, r) \<Longrightarrow>
   (\<forall>ev\<in>set w. \<not> is_delivery ev) \<and>
   (case r of
      Inl err \<Rightarrow> err = EmptyDataError \<and> (\<exists>p. st p = Some ZeroBytes)
    | Inr df \<Rightarrow> len df = month_count e st cfg t month)"
  by (auto simp: load_klines_monthly_data_def load_mt5_klines_monthly_data_def read_csv_def
      empty_frame_def Let_def month_count_def len_def length_reset_index
      split: option.splits csv_file.splits if_splits)

lemma load_months_cases:
  "load_months e st (symbol cfg) t (year cfg) ms acc = (w, r) \<Longrightarrow>
   (\<forall>ev\<in>set w. \<not> is_delivery ev) \<and>
   (case r of
      Inl err \<Rightarrow> err = EmptyDataError \<and> (\<exists>p. st p = Some ZeroBytes)
    | Inr md \<Rightarrow> sum_list (map len md) =
                 sum_list (map len acc) + sum_list (map (month_count e st cfg t) ms))"
proof (induction ms arbitrary: acc w r)
  case Nil
  then show ?case by auto
next
  case (Cons m ms)
  obtain w1 r1 where l: "load_klines_monthly_data e st (symbol cfg) t m (year cfg) = (w1, r1)"
    by (cases "load_klines_monthly_data e st (symbol cfg) t m (year cfg)")
  note c = load_monthly_cases[OF l]
  show ?case
  proof (cases r1)
    case (Inl err)
    with Cons.prems l c show ?thesis by auto
  next
    case (Inr month_data)
    let ?acc = "if len month_data > 0 then acc @ [month_data] else acc"
    obtain w2 r2 where l2: "load_months e st (symbol cfg) t (year cfg) ms ?acc = (w2, r2)"
      by (cases "load_months e st (symbol cfg) t (year cfg) ms ?acc")
    from Cons.prems l Inr l2 have wr: "w = w1 @ w2" "r = r2" by simp_all
    have s: "sum_list (map len ?acc) = sum_list (map len acc) + month_count e st cfg t m"
      using c Inr by auto
    from Cons.IH[OF l2] c s show ?thesis
      unfolding wr by (cases r2) auto
  qed
qed

lemma sum_list_map_sort: "sum_list (map f (sort xs)) = sum_list (map (f :: int \<Rightarrow> nat) xs)"
proof -
  have "sum_mset (image_mset f (mset (sort xs))) = sum_mset (image_mset f (mset xs))"
    by simp
  then show ?thesis
    by (metis mset_map sum_mset_sum_list)
qed

lemma len_sort_concat:
  "len (sort_values e (concat_frames md)) = sum_list (map len md)"
  by (simp add: sort_values_def Let_def concat_frames_def len_def length_reset_index
      map_snd_reset_index length_concat comp_def len_def[abs_def])

lemma load_chart_cases:
  "load_chart e st cfg t = (w, r) \<Longrightarrow>
   (\<forall>ev\<in>set w. \<not> is_delivery ev) \<and>
   (case r of
      Inl err \<Rightarrow>
        (err = EmptyDataError \<and> (\<exists>p. st p = Some ZeroBytes)) \<or>
        (candle_count e st cfg t = 0 \<and> err = ValueError_NoData (symbol cfg) t) \<or>
        (candle_count e st cfg t < NUM_KLINE_INIT e \<and>
         err = ValueError_Insufficient (symbol cfg) t (NUM_KLINE_INIT e) (candle_count e st cfg t))
    | Inr df \<Rightarrow> NUM_KLINE_INIT e \<le> candle_count e st cfg t \<and> 0 < candle_count e st cfg t)"
proof -
  assume a: "load_chart e st cfg t = (w, r)"
  obtain w1 r1 where l: "load_months e st (symbol cfg) t (year cfg) (sort (months cfg)) [] = (w1, r1)"
    by (cases "load_months e st (symbol cfg) t (year cfg) (sort (months cfg)) []")
  note c = load_months_cases[OF l]
  show ?thesis
  proof (cases r1)
    case (Inl err)
    with a l c show ?thesis by (auto simp: load_chart_def)
  next
    case (Inr md)
    with c have s: "sum_list (map len md) = candle_count e st cfg t"
      by (simp add: candle_count_def sum_list_map_sort)
    have ne: "\<forall>df\<in>set md. rows df \<noteq> []"
      using load_months_nonempty[OF l[unfolded Inr]] by simp
    show ?thesis
    proof (cases "md = []")
      case True
      with a l Inr c s show ?thesis by (auto simp: load_chart_def)
    next
      case False
      then obtain df0 md' where md: "md = df0 # md'" by (cases md) auto
      with ne have "0 < len df0" by (simp add: len_def)
      with s md have pos: "0 < candle_count e st cfg t" by auto
      from a l Inr False c s pos show ?thesis
        by (auto simp: load_chart_def Let_def len_sort_concat split: if_splits)
    qed
  qed
qed

lemma load_charts_cases:
  "load_charts e st cfg ts acc = (w, r) \<Longrightarrow>
   (\<forall>ev\<in>set w. \<not> is_delivery ev) \<and>
   (case r of
      Inl err \<Rightarrow>
        (err = EmptyDataError \<and> (\<exists>p. st p = Some ZeroBytes)) \<or>
        (\<exists>t\<in>set ts. candle_count e st cfg t = 0 \<and> err = ValueError_NoData (symbol cfg) t) \<or>
        (\<exists>t\<in>set ts. candle_count e st cfg t < NUM_KLINE_INIT e \<and>
           err = ValueError_Insufficient (symbol cfg) t (NUM_KLINE_INIT e) (candle_count e st cfg t))
    | Inr d \<Rightarrow> \<forall>t\<in>set ts. NUM_KLINE_INIT e \<le> candle_count e st cfg t \<and> 0 < candle_count e st cfg t)"
proof (induction ts arbitrary: acc w r)
  case Nil
  then show ?case by auto
next
  case (Cons t ts)
  obtain w1 r1 where l: "load_chart e st cfg t = (w1, r1)"
    by (cases "load_chart e st cfg t")
  note c = load_chart_cases[OF l]
  show ?case
  proof (cases r1)
    case (Inl err)
    with Cons.prems l c show ?thesis by auto
  next
    case (Inr chart_df)
    obtain w2 r2 where l2: "load_charts e st cfg ts (dict_set acc t chart_df) = (w2, r2)"
      by (cases "load_charts e st cfg ts (dict_set acc t chart_df)")
    from Cons.prems l Inr l2 have wr: "w = w1 @ w2" "r = r2" by simp_all
    from Cons.IH[OF l2] c Inr show ?thesis
      unfolding wr by (cases r2) auto
  qed
qed

text \<open>
  The outcomes of a backtest when some required timeframe holds fewer candles than the
  warm-up minimum over the configured months, or none at all: it raises, and no event
  before the exception hands a candle to the trader (no \<^verbatim>\<open>init_chart\<close>, no \<^verbatim>\<open>on_kline\<close>). The
  exception is the \<^verbatim>\<open>ValueError\<close> that names a required timeframe without data, or the
  \<^verbatim>\<open>ValueError\<close> that names a required timeframe, the minimum and the smaller number found;
  or, when the storage holds a file of zero bytes, the \<^verbatim>\<open>EmptyDataError\<close> of \<^verbatim>\<open>pd.read_csv\<close>.
\<close>

lemma insufficient_data_raises:
  assumes t: "t \<in> set (get_required_tfs e cfg)"
    and few: "candle_count e st cfg t < NUM_KLINE_INIT e \<or> candle_count e st cfg t = 0"
  shows "\<exists>w err. backtest_bot_trader e st cfg = (w, Inl err) \<and>
           (\<forall>ev\<in>set w. \<not> is_delivery ev) \<and>
           ((\<exists>t'\<in>set (get_required_tfs e cfg).
               candle_count e st cfg t' = 0 \<and> err = ValueError_NoData (symbol cfg) t') \<or>
            (\<exists>t'\<in>set (get_required_tfs e cfg).
               candle_count e st cfg t' < NUM_KLINE_INIT e \<and>
               err = ValueError_Insufficient (symbol cfg) t' (NUM_KLINE_INIT e)
                       (candle_count e st cfg t')) \<or>
            (err = EmptyDataError \<and> (\<exists>p. st p = Some ZeroBytes)))"
proof -
  obtain w1 r1 where l: "load_charts e st cfg (get_required_tfs e cfg) [] = (w1, r1)"
    by (cases "load_charts e st cfg (get_required_tfs e cfg) []")
  note c = load_charts_cases[OF l]
  show ?thesis
  proof (cases r1)
    case (Inl err)
    with l have "backtest_bot_trader e st cfg = (InitStrategies # w1, Inl err)"
      by (simp add: backtest_bot_trader_def)
    moreover have "\<forall>ev\<in>set (InitStrategies # w1). \<not> is_delivery ev"
      using c by simp
    ultimately show ?thesis using c Inl by auto
  next
    case (Inr d)
    with c t few show ?thesis by auto
  qed
qed

lemma backtest_store_b:
  "backtest_bot_trader env_a store_b cfg_a =
     ([InitStrategies,
       LogError (InsufficientData ''EURUSD'' ''5m'' 1 2), LogError DownloadMoreData,
       LogError (NeedOneMinute 2), LogError (NeedFiveMinute 2)],
      Inl (ValueError_Insufficient ''EURUSD'' ''5m'' 2 1))"
  by code_simp

lemma insufficient_data_raises_store_b:
  "''5m'' \<in> set (get_required_tfs env_a cfg_a) \<and>
   candle_count env_a store_b cfg_a ''5m'' = 1 \<and> NUM_KLINE_INIT env_a = 2 \<and>
   backtest_bot_trader env_a store_b cfg_a =
     ([InitStrategies,
       LogError (InsufficientData ''EURUSD'' ''5m'' 1 2), LogError DownloadMoreData,
       LogError (NeedOneMinute 2), LogError (NeedFiveMinute 2)],
      Inl (ValueError_Insufficient ''EURUSD'' ''5m'' 2 1))"
proof -
  have t: "''5m'' \<in> set (get_required_tfs env_a cfg_a)"
    by (simp add: env_a_def cfg_a_def)
  have c: "candle_count env_a store_b cfg_a ''5m'' = 1"
    by code_simp
  have n: "NUM_KLINE_INIT env_a = 2"
    by (simp add: env_a_def)
  from backtest_store_b t c n show ?thesis
    by simp
qed

text \<open>
  C4. A symbol entry that requires the one-minute and the five-minute chart, with a warm-up
  minimum of two candles, when the one-minute file of the configured month is there with
  zero bytes: the one-minute timeframe holds no candle at all, and the backtest raises
  before any candle is handed to the trader, but what it raises is the \<^verbatim>\<open>EmptyDataError\<close>
  of \<^verbatim>\<open>pd.read_csv\<close> in the load of that month, and no error record is logged: the tests
  that raise the \<^verbatim>\<open>ValueError\<close> naming the timeframe and the shortfall are not reached.
\<close>

theorem zero_byte_file_hides_shortfall:
  "get_required_tfs env_a cfg_a = [''1m'', ''5m''] \<and>
   NUM_KLINE_INIT env_a = 2 \<and>
   candle_count env_a store_z cfg_a ''1m'' = 0 \<and>
   backtest_bot_trader env_a store_z cfg_a = ([InitStrategies], Inl EmptyDataError)"
  by code_simp

section \<open>Replay scheduler: properties\<close>

declare replay.simps [simp del] ticks.simps [simp del]

lemma delivered_append: "delivered t (u @ v) = delivered t u @ delivered t v"
proof (induction u)
  case Nil
  then show ?case by simp
next
  case (Cons ev u)
  then show ?case by (cases ev) auto
qed

lemma on_tick_events:
  "on_tick crons h m ts d = (w, r) \<Longrightarrow> \<forall>ev\<in>set w. \<exists>t df. ev = OnKline t df \<and> t \<in> set ts"
proof (induction ts arbitrary: d w r)
  case Nil
  then show ?case by simp
next
  case (Cons t0 ts)
  then show ?case
    by (fastforce split: option.splits if_splits prod.splits)
qed

lemma on_tick_frame:
  "on_tick crons h m ts d = (w, Inr d') \<Longrightarrow> t \<notin> set ts \<Longrightarrow>
   map_of d' t = map_of d t \<and> delivered t w = []"
proof (induction ts arbitrary: d w d')
  case Nil
  then show ?case by simp
next
  case (Cons t0 ts)
  then show ?case
    by (fastforce simp: map_of_dict_set split: option.splits if_splits prod.splits)
qed

lemma on_tick_ok:
  "\<forall>t\<in>set ts. map_of crons t \<noteq> None \<and> map_of d t \<noteq> None \<Longrightarrow>
   \<exists>w d'. on_tick crons h m ts d = (w, Inr d') \<and>
          (\<forall>t. (map_of d' t = None) = (map_of d t = None))"
proof (induction ts arbitrary: d)
  case Nil
  then show ?case by simp
next
  case (Cons t0 ts)
  from Cons.prems obtain c df where c: "map_of crons t0 = Some c" and df: "map_of d t0 = Some df"
    by auto
  show ?case
  proof (cases "cron_fires c h m")
    case True
    let ?d1 = "dict_set d t0 (tail1 df)"
    have k: "(map_of ?d1 t = None) = (map_of d t = None)" for t
      using df by (simp add: map_of_dict_set)
    with Cons.prems have "\<forall>t\<in>set ts. map_of crons t \<noteq> None \<and> map_of ?d1 t \<noteq> None"
      by simp
    from Cons.IH[OF this] obtain w d' where
      "on_tick crons h m ts ?d1 = (w, Inr d')" "\<forall>t. (map_of d' t = None) = (map_of ?d1 t = None)"
      by blast
    with c df True k show ?thesis by simp
  next
    case False
    from Cons.prems have "\<forall>t\<in>set ts. map_of crons t \<noteq> None \<and> map_of d t \<noteq> None" by simp
    from Cons.IH[OF this] c False show ?thesis by simp
  qed
qed

lemma on_tick_step:
  "on_tick crons h m ts d = (w, Inr d') \<Longrightarrow> distinct ts \<Longrightarrow> t \<in> set ts \<Longrightarrow>
   map_of d t = Some df \<Longrightarrow>
   delivered t w = (if fires_at crons t h m then take 1 (rows df) else []) \<and>
   (\<exists>df'. map_of d' t = Some df' \<and>
           rows df' = (if fires_at crons t h m then drop 1 (rows df) else rows df))"
proof (induction ts arbitrary: d w d')
  case Nil
  then show ?case by simp
next
  case (Cons t0 ts)
  from Cons.prems(1) obtain c where c: "map_of crons t0 = Some c"
    by (auto split: option.splits)
  show ?case
  proof (cases "cron_fires c h m")
    case False
    with c Cons.prems(1) have r: "on_tick crons h m ts d = (w, Inr d')" by simp
    show ?thesis
    proof (cases "t0 = t")
      case True
      with Cons.prems(2) have "t \<notin> set ts" by simp
      from on_tick_frame[OF r this] Cons.prems(4) c False True show ?thesis
        by (simp add: fires_at_def)
    next
      case F: False
      with Cons.prems have "distinct ts" "t \<in> set ts" by auto
      from Cons.IH[OF r this Cons.prems(4)] show ?thesis .
    qed
  next
    case True
    from True c Cons.prems(1) obtain df0 where df0: "map_of d t0 = Some df0"
      by (auto split: option.splits)
    let ?d1 = "dict_set d t0 (tail1 df0)"
    obtain w1 r1 where r: "on_tick crons h m ts ?d1 = (w1, r1)"
      by (cases "on_tick crons h m ts ?d1")
    with True c df0 Cons.prems(1) have w: "w = OnKline t0 (head1 df0) # w1" and r1: "r1 = Inr d'"
      by simp_all
    show ?thesis
    proof (cases "t0 = t")
      case T: True
      with Cons.prems(2) have "t \<notin> set ts" by simp
      from on_tick_frame[OF r[unfolded r1] this] have
        "map_of d' t = map_of ?d1 t" "delivered t w1 = []" by simp_all
      with T df0 Cons.prems(4) c True w show ?thesis
        by (simp add: fires_at_def map_of_dict_set head1_def tail1_def)
    next
      case F: False
      with Cons.prems have ds: "distinct ts" "t \<in> set ts" by auto
      have "map_of ?d1 t = Some df" using F Cons.prems(4) by (simp add: map_of_dict_set)
      from Cons.IH[OF r[unfolded r1] ds this] F w show ?thesis by simp
    qed
  qed
qed

lemma fire_count_step:
  "timer \<le> end_time \<Longrightarrow>
   fire_count crons t timer end_time =
     (if fires crons t (timer + 60) then 1 else 0) + fire_count crons t (timer + 60) end_time"
  by (subst fire_count_def, subst ticks.simps) (simp add: fire_count_def)

lemma fire_count_done: "\<not> timer \<le> end_time \<Longrightarrow> fire_count crons t timer end_time = 0"
  by (subst fire_count_def, subst ticks.simps) simp

lemma replay_delivers:
  "distinct ts \<Longrightarrow> \<forall>t\<in>set ts. map_of crons t \<noteq> None \<and> map_of d t \<noteq> None \<Longrightarrow>
   \<exists>w d'. replay crons ts timer end_time d = (w, Inr d') \<and>
     (\<forall>ev\<in>set w. \<exists>t df. ev = OnKline t df \<and> t \<in> set ts) \<and>
     (\<forall>t df. t \<in> set ts \<longrightarrow> map_of d t = Some df \<longrightarrow>
        delivered t w = take (fire_count crons t timer end_time) (rows df))"
proof (induction crons ts timer end_time d rule: replay.induct)
  case (1 crons ts timer end_time d)
  show ?case
  proof (cases "timer \<le> end_time")
    case False
    then show ?thesis
      by (subst replay.simps) (simp add: fire_count_done)
  next
    case True
    from on_tick_ok[OF "1.prems"(2)] obtain w1 d1 where
      t1: "on_tick crons (hour_of (timer + 60)) (minute_of (timer + 60)) ts d = (w1, Inr d1)"
      and k1: "\<forall>t. (map_of d1 t = None) = (map_of d t = None)" by blast
    from k1 "1.prems"(2) have "\<forall>t\<in>set ts. map_of crons t \<noteq> None \<and> map_of d1 t \<noteq> None"
      by simp
    from "1.IH"[OF True t1[symmetric] refl "1.prems"(1) this] obtain w2 d2 where
      r2: "replay crons ts (timer + 60) end_time d1 = (w2, Inr d2)"
      and e2: "\<forall>ev\<in>set w2. \<exists>t df. ev = OnKline t df \<and> t \<in> set ts"
      and c2: "\<forall>t df. t \<in> set ts \<longrightarrow> map_of d1 t = Some df \<longrightarrow>
                 delivered t w2 = take (fire_count crons t (timer + 60) end_time) (rows df)"
      by blast
    have r: "replay crons ts timer end_time d = (w1 @ w2, Inr d2)"
      using True t1 r2 by (subst replay.simps) simp
    have e: "\<forall>ev\<in>set (w1 @ w2). \<exists>t df. ev = OnKline t df \<and> t \<in> set ts"
      using on_tick_events[OF t1] e2 by auto
    have c: "delivered t (w1 @ w2) = take (fire_count crons t timer end_time) (rows df)"
      if t: "t \<in> set ts" and df: "map_of d t = Some df" for t df
    proof -
      from on_tick_step[OF t1 "1.prems"(1) t df] obtain df' where
        a: "delivered t w1 =
              (if fires_at crons t (hour_of (timer + 60)) (minute_of (timer + 60))
               then take 1 (rows df) else [])"
        and b: "map_of d1 t = Some df'"
        and b': "rows df' =
              (if fires_at crons t (hour_of (timer + 60)) (minute_of (timer + 60))
               then drop 1 (rows df) else rows df)" by blast
      from c2 t b have "delivered t w2 = take (fire_count crons t (timer + 60) end_time) (rows df')"
        by blast
      with a b' show ?thesis
        by (simp add: delivered_append fire_count_step[OF True] fires_def take_add)
    qed
    from r e c show ?thesis by blast
  qed
qed

lemma loaded_charts_4h:
  "load_charts env_a store_4h cfg_4h (get_required_tfs env_a cfg_4h) [] = ([], Inr charts_4h)"
  by code_simp

lemma align_charts_4h: "align (NUM_KLINE_INIT env_a) charts_4h = Inr aligned_4h"
  by code_simp

lemma backtest_4h:
  "backtest_bot_trader env_a store_4h cfg_4h =
     ([InitStrategies, InitChart [(''4h'', frame [(0, 0), (1, 14400)])], AttachOms,
       LogInfo (StartTimer 14400 28800)], Inr ())"
  by code_simp

lemma loaded_charts_twice:
  "load_charts env_1m store_1m cfg_twice (get_required_tfs env_1m cfg_twice) [] =
     ([], Inr charts_twice)"
  by code_simp

lemma align_charts_twice: "align (NUM_KLINE_INIT env_1m) charts_twice = Inr aligned_twice"
  by code_simp

lemma backtest_twice:
  "backtest_bot_trader env_1m store_1m cfg_twice =
     ([InitStrategies, InitChart [(''1m'', frame [(0, 0)])], AttachOms,
       LogInfo (StartTimer 0 120),
       OnKline ''1m'' (frame [(1, 60)]), OnKline ''1m'' (frame [(2, 60)]),
       OnKline ''1m'' (frame [(3, 120)])], Inr ())"
  by code_simp

lemma backtest_a:
  "backtest_bot_trader env_a store_a cfg_a =
     ([InitStrategies,
       InitChart [(''1m'', frame [(0, 240), (1, 300)]), (''5m'', frame [(0, 0), (1, 300)])],
       AttachOms, LogInfo (StartTimer 300 600),
       OnKline ''1m'' (frame [(2, 360)]),
       OnKline ''1m'' (frame []), OnKline ''1m'' (frame []), OnKline ''1m'' (frame []),
       OnKline ''1m'' (frame []), OnKline ''5m'' (frame [(2, 600)]),
       OnKline ''1m'' (frame [])], Inr ())"
  by code_simp

lemma replay_ok:
  "\<forall>t\<in>set ts. map_of crons t \<noteq> None \<and> map_of d t \<noteq> None \<Longrightarrow>
   \<exists>w d'. replay crons ts timer end_time d = (w, Inr d') \<and>
     (\<forall>ev\<in>set w. \<exists>t df. ev = OnKline t df \<and> t \<in> set ts)"
proof (induction crons ts timer end_time d rule: replay.induct)
  case (1 crons ts timer end_time d)
  show ?case
  proof (cases "timer \<le> end_time")
    case False
    then show ?thesis
      by (subst replay.simps) simp
  next
    case True
    from on_tick_ok[OF "1.prems"] obtain w1 d1 where
      t1: "on_tick crons (hour_of (timer + 60)) (minute_of (timer + 60)) ts d = (w1, Inr d1)"
      and k1: "\<forall>t. (map_of d1 t = None) = (map_of d t = None)" by blast
    from k1 "1.prems" have "\<forall>t\<in>set ts. map_of crons t \<noteq> None \<and> map_of d1 t \<noteq> None"
      by simp
    from "1.IH"[OF True t1[symmetric] refl this] obtain w2 d2 where
      r2: "replay crons ts (timer + 60) end_time d1 = (w2, Inr d2)"
      and e2: "\<forall>ev\<in>set w2. \<exists>t df. ev = OnKline t df \<and> t \<in> set ts"
      by blast
    have r: "replay crons ts timer end_time d = (w1 @ w2, Inr d2)"
      using True t1 r2 by (subst replay.simps) simp
    have e: "\<forall>ev\<in>set (w1 @ w2). \<exists>t df. ev = OnKline t df \<and> t \<in> set ts"
      using on_tick_events[OF t1] e2 by auto
    from r e show ?thesis by blast
  qed
qed

lemma delivered_no_delivery: "\<forall>ev\<in>set w. \<not> is_delivery ev \<Longrightarrow> delivered t w = []"
proof (induction w)
  case Nil
  then show ?case by simp
next
  case (Cons ev w)
  then show ?case by (cases ev) auto
qed

lemma delivered_others:
  "\<forall>ev\<in>set w. \<exists>t' df. ev = OnKline t' df \<and> t' \<in> set ts \<Longrightarrow> t \<notin> set ts \<Longrightarrow>
   delivered t w = []"
proof (induction w)
  case Nil
  then show ?case by simp
next
  case (Cons ev w)
  then show ?case by (cases ev) auto
qed

lemma map_of_keys: "(map_of d t \<noteq> None) = (t \<in> set (map fst d))"
  by (simp add: map_of_eq_None_iff)

text \<open>The facts about a run whose alignment succeeded that the replay properties share.\<close>

lemma replay_setting:
  fixes d :: "(tf \<times> 'v dataframe) list"
  assumes n: "0 < NUM_KLINE_INIT e"
    and ld: "load_charts e st cfg (get_required_tfs e cfg) [] = (w, Inr d)"
    and al: "align (NUM_KLINE_INIT e) d = Inr al"
  shows "set (map fst (tfs_chart_rest al)) = set (get_required_tfs e cfg)"
    and "\<forall>x\<in>set (tfs_chart_rest al). rest_ok (NUM_KLINE_INIT e) (al_max_time al) (snd x)"
    and "\<forall>t\<in>set (filter (\<lambda>t. t \<in> set (get_required_tfs e cfg)) (map fst (tf_cron e))).
           map_of (tf_cron e) t \<noteq> None \<and> map_of (tfs_chart_rest al) t \<noteq> None"
    and "\<forall>ev\<in>set w. \<not> is_delivery ev"
proof -
  from load_charts_loaded[OF ld] have l: "\<forall>x\<in>set d. loaded (NUM_KLINE_INIT e) (snd x)"
    and k: "fst ` set d = set (get_required_tfs e cfg)" by simp_all
  note a = align_ok[OF l n al]
  from a k show 1: "set (map fst (tfs_chart_rest al)) = set (get_required_tfs e cfg)"
    by simp
  from a show "\<forall>x\<in>set (tfs_chart_rest al). rest_ok (NUM_KLINE_INIT e) (al_max_time al) (snd x)"
    by blast
  show "\<forall>t\<in>set (filter (\<lambda>t. t \<in> set (get_required_tfs e cfg)) (map fst (tf_cron e))).
           map_of (tf_cron e) t \<noteq> None \<and> map_of (tfs_chart_rest al) t \<noteq> None"
    unfolding map_of_keys 1 by simp
  from load_charts_cases[OF ld] show "\<forall>ev\<in>set w. \<not> is_delivery ev" by simp
qed

lemma backtest_returns:
  fixes d :: "(tf \<times> 'v dataframe) list"
  assumes n: "0 < NUM_KLINE_INIT e"
    and ld: "load_charts e st cfg (get_required_tfs e cfg) [] = (w, Inr d)"
    and al: "align (NUM_KLINE_INIT e) d = Inr al"
  shows "\<exists>w'. backtest_bot_trader e st cfg =
           (InitStrategies # w @
              [InitChart (tfs_chart_init al), AttachOms,
               LogInfo (StartTimer (al_max_time al) (al_end_time al))] @ w', Inr ()) \<and>
           fst (replay (tf_cron e)
                 (filter (\<lambda>t. t \<in> set (get_required_tfs e cfg)) (map fst (tf_cron e)))
                 (al_max_time al) (al_end_time al) (tfs_chart_rest al)) = w' \<and>
           (\<forall>ev\<in>set w'. \<exists>t df. ev = OnKline t df \<and>
              t \<in> set (get_required_tfs e cfg) \<and> t \<in> fst ` set (tf_cron e))"
proof -
  let ?ts = "filter (\<lambda>t. t \<in> set (get_required_tfs e cfg)) (map fst (tf_cron e))"
  from replay_ok[OF replay_setting(3)[OF n ld al]] obtain w' d' where
    r: "replay (tf_cron e) ?ts (al_max_time al) (al_end_time al) (tfs_chart_rest al) = (w', Inr d')"
    and ev: "\<forall>ev\<in>set w'. \<exists>t df. ev = OnKline t df \<and> t \<in> set ?ts" by blast
  from ld al r have bt: "backtest_bot_trader e st cfg =
      (InitStrategies # w @
         [InitChart (tfs_chart_init al), AttachOms,
          LogInfo (StartTimer (al_max_time al) (al_end_time al))] @ w', Inr ())"
    by (simp add: backtest_bot_trader_def)
  have ev2: "\<forall>ev\<in>set w'. \<exists>t df. ev = OnKline t df \<and>
               t \<in> set (get_required_tfs e cfg) \<and> t \<in> fst ` set (tf_cron e)"
  proof
    fix ev assume "ev \<in> set w'"
    with ev obtain t df where "ev = OnKline t df" "t \<in> set ?ts" by blast
    then show "\<exists>t df. ev = OnKline t df \<and>
               t \<in> set (get_required_tfs e cfg) \<and> t \<in> fst ` set (tf_cron e)"
      by auto
  qed
  from bt r ev2 show ?thesis
    by (intro exI[of _ w'] conjI) simp_all
qed

text \<open>
  C10. A timeframe that the trader requires and that is no key of \<^verbatim>\<open>tf_cron\<close> is never
  fired: after a successful alignment the run returns without an exception, every event
  of the replay loop is an \<^verbatim>\<open>on_kline\<close> call for another timeframe (so the loop writes no
  log record), and no event of the whole run is an \<^verbatim>\<open>on_kline\<close> call for that timeframe.
\<close>

theorem absent_timeframe_never_fires:
  fixes d :: "(tf \<times> 'v dataframe) list"
  assumes n: "0 < NUM_KLINE_INIT e"
    and ld: "load_charts e st cfg (get_required_tfs e cfg) [] = (w, Inr d)"
    and al: "align (NUM_KLINE_INIT e) d = Inr al"
    and t: "t \<in> set (get_required_tfs e cfg)"
    and a: "t \<notin> fst ` set (tf_cron e)"
  shows "\<exists>w'. backtest_bot_trader e st cfg =
           (InitStrategies # w @
              [InitChart (tfs_chart_init al), AttachOms,
               LogInfo (StartTimer (al_max_time al) (al_end_time al))] @ w', Inr ()) \<and>
           (\<forall>ev\<in>set w'. \<exists>t' df. ev = OnKline t' df \<and> t' \<noteq> t) \<and>
           (\<forall>df. OnKline t df \<notin> set (fst (backtest_bot_trader e st cfg)))"
proof -
  from backtest_returns[OF n ld al] obtain w' where
    bt: "backtest_bot_trader e st cfg =
           (InitStrategies # w @
              [InitChart (tfs_chart_init al), AttachOms,
               LogInfo (StartTimer (al_max_time al) (al_end_time al))] @ w', Inr ())"
    and ev: "\<forall>ev\<in>set w'. \<exists>t' df. ev = OnKline t' df \<and>
               t' \<in> set (get_required_tfs e cfg) \<and> t' \<in> fst ` set (tf_cron e)" by blast
  have ev': "\<forall>ev\<in>set w'. \<exists>t' df. ev = OnKline t' df \<and> t' \<noteq> t"
  proof
    fix ev assume "ev \<in> set w'"
    with ev obtain t' df where "ev = OnKline t' df" "t' \<in> fst ` set (tf_cron e)" by blast
    with a show "\<exists>t' df. ev = OnKline t' df \<and> t' \<noteq> t" by blast
  qed
  have "OnKline t df \<notin> set (fst (backtest_bot_trader e st cfg))" for df
  proof
    assume "OnKline t df \<in> set (fst (backtest_bot_trader e st cfg))"
    then have "OnKline t df \<in> set w \<or> OnKline t df \<in> set w'" unfolding bt by simp
    then show False
    proof
      assume "OnKline t df \<in> set w"
      with replay_setting(4)[OF n ld al] have "\<not> is_delivery (OnKline t df)" by blast
      then show False by simp
    next
      assume "OnKline t df \<in> set w'"
      with ev' obtain t' df' where "OnKline t df = OnKline t' df'" "t' \<noteq> t" by blast
      then show False by simp
    qed
  qed
  with bt ev' show ?thesis by blast
qed

theorem absent_timeframe_never_fires_witness:
  "0 < NUM_KLINE_INIT env_a \<and>
   load_charts env_a store_4h cfg_4h (get_required_tfs env_a cfg_4h) [] = ([], Inr charts_4h) \<and>
   align (NUM_KLINE_INIT env_a) charts_4h = Inr aligned_4h \<and>
   ''4h'' \<in> set (get_required_tfs env_a cfg_4h) \<and>
   ''4h'' \<notin> fst ` set (tf_cron env_a) \<and>
   tfs_chart_rest aligned_4h = [(''4h'', frame [(2, 28800)])] \<and>
   backtest_bot_trader env_a store_4h cfg_4h =
     ([InitStrategies, InitChart [(''4h'', frame [(0, 0), (1, 14400)])], AttachOms,
       LogInfo (StartTimer 14400 28800)], Inr ())"
proof -
  have n: "0 < NUM_KLINE_INIT env_a" by (simp add: env_a_def)
  have t: "''4h'' \<in> set (get_required_tfs env_a cfg_4h)"
    by (simp add: env_a_def cfg_4h_def cfg_a_def)
  have a: "''4h'' \<notin> fst ` set (tf_cron env_a)"
    by (simp add: env_a_def)
  from absent_timeframe_never_fires [OF n loaded_charts_4h align_charts_4h t a]
  obtain w' where
    "backtest_bot_trader env_a store_4h cfg_4h =
       (InitStrategies # [] @
          [InitChart (tfs_chart_init aligned_4h), AttachOms,
           LogInfo (StartTimer (al_max_time aligned_4h) (al_end_time aligned_4h))] @ w', Inr ())"
    by blast
  with backtest_4h have "w' = []" by simp
  with n t a loaded_charts_4h align_charts_4h backtest_4h show ?thesis
    by (simp add: aligned_4h_def)
qed

lemma fire_count_absent:
  "map_of crons t = None \<Longrightarrow> fire_count crons t timer end_time = 0"
  by (simp add: fire_count_def fires_def fires_at_def)

text \<open>
  C1, as amended. After a successful alignment the run returns, and for every required
  timeframe the rows delivered by \<^verbatim>\<open>on_kline\<close> are the first \<open>k\<close> rows of the timeframe's
  replay slice, in the slice's order, where \<open>k\<close> is the number of ticks at which the
  timeframe's rule fires (0 for a timeframe that is no key of \<^verbatim>\<open>tf_cron\<close>). The open times
  delivered never decrease, and increase strictly when no two rows of the slice share an
  open time.
\<close>

theorem replay_delivers_prefix:
  fixes d :: "(tf \<times> 'v dataframe) list"
  assumes n: "0 < NUM_KLINE_INIT e"
    and ld: "load_charts e st cfg (get_required_tfs e cfg) [] = (w, Inr d)"
    and al: "align (NUM_KLINE_INIT e) d = Inr al"
    and dc: "distinct (map fst (tf_cron e))"
    and t: "t \<in> set (get_required_tfs e cfg)"
  shows "\<exists>tr slice. backtest_bot_trader e st cfg = (tr, Inr ()) \<and>
           map_of (tfs_chart_rest al) t = Some slice \<and>
           delivered t tr =
             take (fire_count (tf_cron e) t (al_max_time al) (al_end_time al)) (rows slice) \<and>
           (length (rows slice) \<le> fire_count (tf_cron e) t (al_max_time al) (al_end_time al) \<longrightarrow>
              delivered t tr = rows slice) \<and>
           sorted (map (\<lambda>r. open_time (snd r)) (delivered t tr)) \<and>
           (distinct (map (\<lambda>r. open_time (snd r)) (rows slice)) \<longrightarrow>
              sorted_wrt (<) (map (\<lambda>r. open_time (snd r)) (delivered t tr)))"
proof -
  let ?ts = "filter (\<lambda>t. t \<in> set (get_required_tfs e cfg)) (map fst (tf_cron e))"
  let ?k = "fire_count (tf_cron e) t (al_max_time al) (al_end_time al)"
  let ?f = "\<lambda>r :: int \<times> 'v candle. open_time (snd r)"
  note s = replay_setting[OF n ld al]
  from backtest_returns[OF n ld al] obtain w' where
    bt: "backtest_bot_trader e st cfg =
           (InitStrategies # w @
              [InitChart (tfs_chart_init al), AttachOms,
               LogInfo (StartTimer (al_max_time al) (al_end_time al))] @ w', Inr ())"
    and fr: "fst (replay (tf_cron e) ?ts (al_max_time al) (al_end_time al) (tfs_chart_rest al)) = w'"
    and ev: "\<forall>ev\<in>set w'. \<exists>t df. ev = OnKline t df \<and>
               t \<in> set (get_required_tfs e cfg) \<and> t \<in> fst ` set (tf_cron e)" by blast
  let ?tr = "InitStrategies # w @
              [InitChart (tfs_chart_init al), AttachOms,
               LogInfo (StartTimer (al_max_time al) (al_end_time al))] @ w'"
  from t s(1) have "map_of (tfs_chart_rest al) t \<noteq> None"
    unfolding map_of_keys by simp
  then obtain slice where sl: "map_of (tfs_chart_rest al) t = Some slice" by blast
  then have "(t, slice) \<in> set (tfs_chart_rest al)" by (rule map_of_SomeD)
  with s(2) have ok: "rest_ok (NUM_KLINE_INIT e) (al_max_time al) slice" by fastforce
  have dw: "delivered t w = []"
    using s(4) by (rule delivered_no_delivery)
  have tr: "delivered t ?tr = delivered t w'"
    by (simp add: delivered_append dw)
  have dl: "delivered t w' = take ?k (rows slice)"
  proof (cases "t \<in> fst ` set (tf_cron e)")
    case True
    with t have in_ts: "t \<in> set ?ts" by simp
    from dc have "distinct ?ts" by (rule distinct_filter)
    from replay_delivers[OF this s(3)] obtain w2 d2 where
      r2: "replay (tf_cron e) ?ts (al_max_time al) (al_end_time al) (tfs_chart_rest al) = (w2, Inr d2)"
      and c2: "\<forall>t df. t \<in> set ?ts \<longrightarrow> map_of (tfs_chart_rest al) t = Some df \<longrightarrow>
                 delivered t w2 = take (fire_count (tf_cron e) t (al_max_time al) (al_end_time al)) (rows df)"
      by blast
    from r2 fr have "w2 = w'" by simp
    with c2 in_ts sl show ?thesis by blast
  next
    case False
    then have "map_of (tf_cron e) t = None" by (simp add: map_of_eq_None_iff)
    then have "?k = 0" by (rule fire_count_absent)
    moreover have "delivered t w' = []"
    proof (rule delivered_others)
      show "\<forall>ev\<in>set w'. \<exists>t' df. ev = OnKline t' df \<and> t' \<in> set ?ts"
      proof
        fix ev assume "ev \<in> set w'"
        with ev obtain t' df where "ev = OnKline t' df" "t' \<in> set (get_required_tfs e cfg)"
          "t' \<in> fst ` set (tf_cron e)" by blast
        then show "\<exists>t' df. ev = OnKline t' df \<and> t' \<in> set ?ts" by auto
      qed
      show "t \<notin> set ?ts" using False by simp
    qed
    ultimately show ?thesis by simp
  qed
  from ok have srt: "sorted (map ?f (rows slice))" by (simp add: rest_ok_def)
  have st: "sorted (map ?f (take ?k (rows slice)))"
    using srt by (simp add: take_map[symmetric] sorted_wrt_take)
  have sst: "sorted_wrt (<) (map ?f (take ?k (rows slice)))"
    if "distinct (map ?f (rows slice))"
  proof -
    from that have "distinct (map ?f (take ?k (rows slice)))"
      by (simp add: take_map[symmetric] distinct_take)
    with st show ?thesis by (simp add: strict_sorted_iff)
  qed
  from bt sl tr dl st sst show ?thesis by simp
qed

lemma fire_count_a_1m: "fire_count (tf_cron env_a) ''1m'' 300 600 = 6"
  by code_simp

lemma fire_count_a_5m: "fire_count (tf_cron env_a) ''5m'' 300 600 = 1"
  by code_simp

theorem replay_delivers_prefix_witness:
  "0 < NUM_KLINE_INIT env_a \<and>
   load_charts env_a store_a cfg_a (get_required_tfs env_a cfg_a) [] = ([], Inr charts_a) \<and>
   align (NUM_KLINE_INIT env_a) charts_a = Inr aligned_a \<and>
   distinct (map fst (tf_cron env_a)) \<and>
   ''5m'' \<in> set (get_required_tfs env_a cfg_a) \<and>
   map_of (tfs_chart_rest aligned_a) ''5m'' = Some (frame [(2, 600)]) \<and>
   fire_count (tf_cron env_a) ''5m'' (al_max_time aligned_a) (al_end_time aligned_a) = 1 \<and>
   delivered ''5m'' (fst (backtest_bot_trader env_a store_a cfg_a)) = [(2, bar 600)]"
proof -
  have n: "0 < NUM_KLINE_INIT env_a" by (simp add: env_a_def)
  have dc: "distinct (map fst (tf_cron env_a))" by (simp add: env_a_def)
  have t: "''5m'' \<in> set (get_required_tfs env_a cfg_a)"
    by (simp add: env_a_def cfg_a_def)
  have sl: "map_of (tfs_chart_rest aligned_a) ''5m'' = Some (frame [(2, 600)])"
    by (simp add: aligned_a_def)
  have k: "fire_count (tf_cron env_a) ''5m'' (al_max_time aligned_a) (al_end_time aligned_a) = 1"
    using fire_count_a_5m by (simp add: aligned_a_def)
  from replay_delivers_prefix [OF n loaded_charts_a align_charts_a dc t] sl k
  have "delivered ''5m'' (fst (backtest_bot_trader env_a store_a cfg_a)) = take 1 (rows (frame [(2, 600)]))"
    by auto
  then have "delivered ''5m'' (fst (backtest_bot_trader env_a store_a cfg_a)) = [(2, bar 600)]"
    by (simp add: frame_def)
  with n loaded_charts_a align_charts_a dc t sl k show ?thesis by simp
qed

text \<open>
  C1, counterexample. The four-hour slice holds one candle and none is delivered; with
  month 1 listed twice the one-minute slice holds the open times 60, 60, 120, 120 and the
  run delivers 60, 60, 120: not strictly increasing, and the last candle never.
\<close>

theorem replay_delivers_all_counterexample:
  "load_charts env_a store_4h cfg_4h (get_required_tfs env_a cfg_4h) [] = ([], Inr charts_4h) \<and>
   align (NUM_KLINE_INIT env_a) charts_4h = Inr aligned_4h \<and>
   ''4h'' \<in> set (get_required_tfs env_a cfg_4h) \<and>
   map_of (tfs_chart_rest aligned_4h) ''4h'' = Some (frame [(2, 28800)]) \<and>
   delivered ''4h'' (fst (backtest_bot_trader env_a store_4h cfg_4h)) = [] \<and>
   load_charts env_1m store_1m cfg_twice (get_required_tfs env_1m cfg_twice) [] =
     ([], Inr charts_twice) \<and>
   align (NUM_KLINE_INIT env_1m) charts_twice = Inr aligned_twice \<and>
   ''1m'' \<in> set (get_required_tfs env_1m cfg_twice) \<and>
   map_of (tfs_chart_rest aligned_twice) ''1m'' =
     Some (frame [(1, 60), (2, 60), (3, 120), (4, 120)]) \<and>
   delivered ''1m'' (fst (backtest_bot_trader env_1m store_1m cfg_twice)) =
     [(1, bar 60), (2, bar 60), (3, bar 120)]"
proof -
  have "''4h'' \<in> set (get_required_tfs env_a cfg_4h)"
    by (simp add: env_a_def cfg_4h_def cfg_a_def)
  moreover have "''1m'' \<in> set (get_required_tfs env_1m cfg_twice)"
    by (simp add: env_1m_def env_a_def cfg_twice_def cfg_a_def)
  moreover have "delivered ''4h'' (fst (backtest_bot_trader env_a store_4h cfg_4h)) = []"
    by (simp add: backtest_4h)
  moreover have "delivered ''1m'' (fst (backtest_bot_trader env_1m store_1m cfg_twice)) =
     [(1, bar 60), (2, bar 60), (3, bar 120)]"
    by (simp add: backtest_twice frame_def)
  ultimately show ?thesis
    using loaded_charts_4h align_charts_4h loaded_charts_twice align_charts_twice
    by (simp add: aligned_4h_def aligned_twice_def)
qed

lemma rows_empty_head1: "rows df = [] \<Longrightarrow> head1 df = df"
  by (simp add: head1_def)

lemma rows_empty_tail1: "rows df = [] \<Longrightarrow> tail1 df = df"
  by (simp add: tail1_def)

text \<open>
  C3, as amended. On a tick at which the rule of a timeframe fires while its replay slice
  is empty, the scheduler still calls \<^verbatim>\<open>on_kline\<close> for the timeframe, with the empty frame;
  no row is delivered for it and its slice stays empty.
\<close>

theorem tick_on_empty_slice:
  "on_tick crons h m ts d = (w, Inr d') \<Longrightarrow> t \<in> set ts \<Longrightarrow>
   map_of crons t = Some c \<Longrightarrow> cron_fires c h m \<Longrightarrow>
   map_of d t = Some df \<Longrightarrow> rows df = [] \<Longrightarrow>
   OnKline t df \<in> set w \<and> delivered t w = [] \<and> map_of d' t = Some df"
proof (induction ts arbitrary: d w d')
  case Nil
  then show ?case by simp
next
  case (Cons t0 ts)
  show ?case
  proof (cases "t0 = t")
    case True
    let ?d1 = "dict_set d t (tail1 df)"
    obtain w1 r1 where r: "on_tick crons h m ts ?d1 = (w1, r1)"
      by (cases "on_tick crons h m ts ?d1")
    with True Cons.prems have w: "w = OnKline t (head1 df) # w1" and r1: "r1 = Inr d'"
      by simp_all
    have d1: "map_of ?d1 t = Some df"
      using Cons.prems(6) by (simp add: map_of_dict_set rows_empty_tail1)
    have rest: "delivered t w1 = [] \<and> map_of d' t = Some df"
    proof (cases "t \<in> set ts")
      case True
      from Cons.IH[OF r[unfolded r1] True Cons.prems(3) Cons.prems(4) d1 Cons.prems(6)]
      show ?thesis by simp
    next
      case False
      from on_tick_frame[OF r[unfolded r1] False] d1 show ?thesis by simp
    qed
    with w Cons.prems(6) show ?thesis
      by (simp add: rows_empty_head1)
  next
    case False
    with Cons.prems(2) have in_ts: "t \<in> set ts" by simp
    from Cons.prems(1) obtain c0 where c0: "map_of crons t0 = Some c0"
      by (auto split: option.splits)
    show ?thesis
    proof (cases "cron_fires c0 h m")
      case F: False
      with c0 Cons.prems(1) have r: "on_tick crons h m ts d = (w, Inr d')" by simp
      from Cons.IH[OF r in_ts Cons.prems(3) Cons.prems(4) Cons.prems(5) Cons.prems(6)]
      show ?thesis .
    next
      case T: True
      from T c0 Cons.prems(1) obtain df0 where df0: "map_of d t0 = Some df0"
        by (auto split: option.splits)
      let ?d1 = "dict_set d t0 (tail1 df0)"
      obtain w1 r1 where r: "on_tick crons h m ts ?d1 = (w1, r1)"
        by (cases "on_tick crons h m ts ?d1")
      with T c0 df0 Cons.prems(1) have w: "w = OnKline t0 (head1 df0) # w1" and r1: "r1 = Inr d'"
        by simp_all
      have d1: "map_of ?d1 t = Some df"
        using False Cons.prems(5) by (simp add: map_of_dict_set)
      from Cons.IH[OF r[unfolded r1] in_ts Cons.prems(3) Cons.prems(4) d1 Cons.prems(6)] w False
      show ?thesis by simp
    qed
  qed
qed

theorem tick_on_empty_slice_witness:
  "on_tick (tf_cron env_a) (hour_of 420) (minute_of 420) [''1m'', ''5m'']
     [(''1m'', frame []), (''5m'', frame [(2, 600)])] =
     ([OnKline ''1m'' (frame [])], Inr [(''1m'', frame []), (''5m'', frame [(2, 600)])]) \<and>
   ''1m'' \<in> set [''1m'', ''5m''] \<and>
   map_of (tf_cron env_a) ''1m'' = Some \<lparr>cron_hour = None, cron_minute = None\<rparr> \<and>
   cron_fires \<lparr>cron_hour = None, cron_minute = None\<rparr> (hour_of 420) (minute_of 420) \<and>
   map_of [(''1m'', frame []), (''5m'', frame [(2, 600 :: int)])] ''1m'' = Some (frame []) \<and>
   rows (frame []) = [] \<and>
   OnKline ''1m'' (frame []) \<in>
     set (fst (on_tick (tf_cron env_a) (hour_of 420) (minute_of 420) [''1m'', ''5m'']
                 [(''1m'', frame []), (''5m'', frame [(2, 600)])]))"
proof -
  have r: "on_tick (tf_cron env_a) (hour_of 420) (minute_of 420) [''1m'', ''5m'']
     [(''1m'', frame []), (''5m'', frame [(2, 600)])] =
     ([OnKline ''1m'' (frame [])], Inr [(''1m'', frame []), (''5m'', frame [(2, 600)])])"
    by code_simp
  have t: "''1m'' \<in> set [''1m'', ''5m'']" by simp
  have c: "map_of (tf_cron env_a) ''1m'' = Some \<lparr>cron_hour = None, cron_minute = None\<rparr>"
    by (simp add: env_a_def)
  have f: "cron_fires \<lparr>cron_hour = None, cron_minute = None\<rparr> (hour_of 420) (minute_of 420)"
    by (simp add: cron_fires_def)
  have s: "map_of [(''1m'', frame []), (''5m'', frame [(2, 600 :: int)])] ''1m'' = Some (frame [])"
    by simp
  have e: "rows (frame []) = []" by (simp add: frame_def)
  from tick_on_empty_slice [OF r t c f s e] have
    "OnKline ''1m'' (frame []) \<in> set [OnKline ''1m'' (frame [])]" by blast
  with r t c f s e show ?thesis by simp
qed

text \<open>
  C3, counterexample. In the run on two timeframes the one-minute slice holds one candle;
  the rule fires on all six ticks, and the five ticks after the first call \<^verbatim>\<open>on_kline\<close> with
  a frame without rows.
\<close>

theorem empty_slice_notified_counterexample:
  "load_charts env_a store_a cfg_a (get_required_tfs env_a cfg_a) [] = ([], Inr charts_a) \<and>
   align (NUM_KLINE_INIT env_a) charts_a = Inr aligned_a \<and>
   map_of (tfs_chart_rest aligned_a) ''1m'' = Some (frame [(2, 360)]) \<and>
   backtest_bot_trader env_a store_a cfg_a =
     ([InitStrategies,
       InitChart [(''1m'', frame [(0, 240), (1, 300)]), (''5m'', frame [(0, 0), (1, 300)])],
       AttachOms, LogInfo (StartTimer 300 600),
       OnKline ''1m'' (frame [(2, 360)]),
       OnKline ''1m'' (frame []), OnKline ''1m'' (frame []), OnKline ''1m'' (frame []),
       OnKline ''1m'' (frame []), OnKline ''5m'' (frame [(2, 600)]),
       OnKline ''1m'' (frame [])], Inr ())"
  using loaded_charts_a align_charts_a backtest_a by (simp add: aligned_a_def)

section \<open>Data provisioner and run: properties\<close>

lemma check_missing_filter:
  "check_missing e st rf acc = acc @ filter (absent e st) rf"
  by (induction rf arbitrary: acc) (auto simp: absent_def)

lemma download_monthly_data_cases:
  "\<not> fetch_raises e (smb, interval, yr, month) \<Longrightarrow>
   \<exists>st'. download_monthly_data e st smb interval month yr =
           Inr (fetch_ok e (smb, interval, yr, month), st')"
  by (auto simp: download_monthly_data_def fetch_raises_def fetch_ok_def
      split: rates.splits option.splits)

lemma download_file_list_ok:
  "\<forall>f\<in>set file_list. \<not> fetch_raises e (smb, f) \<Longrightarrow>
   \<exists>s'. download_file_list e smb file_list s = (s', None) \<and>
        attempted s' = attempted s @ map (\<lambda>f. (smb, f)) file_list \<and>
        successful s' = successful s + length (filter (fetch_ok e) (map (\<lambda>f. (smb, f)) file_list))"
proof (induction file_list arbitrary: s)
  case Nil
  then show ?case by simp
next
  case (Cons f file_list)
  obtain interval yr month where f: "f = (interval, yr, month)" by (cases f)
  from Cons.prems f have nr: "\<not> fetch_raises e (smb, interval, yr, month)" by simp
  let ?ok = "fetch_ok e (smb, interval, yr, month)"
  from download_monthly_data_cases[OF nr] obtain st' where
    dl: "download_monthly_data e (dl_storage s) smb interval month yr = Inr (?ok, st')"
    by blast
  let ?s1 = "s\<lparr>attempted := attempted s @ [(smb, interval, yr, month)]\<rparr>"
  let ?s2 = "?s1\<lparr>dl_storage := st', successful := (if ?ok then successful s + 1 else successful s)\<rparr>"
  from Cons.prems have "\<forall>f\<in>set file_list. \<not> fetch_raises e (smb, f)" by simp
  from Cons.IH[OF this, of ?s2] obtain s' where
    r: "download_file_list e smb file_list ?s2 = (s', None)"
    and a: "attempted s' = attempted ?s2 @ map (\<lambda>f. (smb, f)) file_list"
    and c: "successful s' = successful ?s2 + length (filter (fetch_ok e) (map (\<lambda>f. (smb, f)) file_list))"
    by blast
  have "download_file_list e smb (f # file_list) s = (s', None)"
    unfolding f using dl r by (simp add: Let_def)
  with a c f show ?case by simp
qed

lemma download_symbols_ok:
  "\<forall>k\<in>set (flatten d). \<not> fetch_raises e k \<Longrightarrow>
   \<exists>s'. download_symbols e d s = (s', None) \<and>
        attempted s' = attempted s @ flatten d \<and>
        successful s' = successful s + length (filter (fetch_ok e) (flatten d))"
proof (induction d arbitrary: s)
  case Nil
  then show ?case by (simp add: flatten_def)
next
  case (Cons x d)
  obtain smb file_list where x: "x = (smb, file_list)" by (cases x)
  have fl: "flatten (x # d) = map (\<lambda>f. (smb, f)) file_list @ flatten d"
    by (simp add: flatten_def x)
  from Cons.prems fl have "\<forall>f\<in>set file_list. \<not> fetch_raises e (smb, f)" by auto
  from download_file_list_ok[OF this, of s] obtain s1 where
    r1: "download_file_list e smb file_list s = (s1, None)"
    and a1: "attempted s1 = attempted s @ map (\<lambda>f. (smb, f)) file_list"
    and c1: "successful s1 = successful s +
               length (filter (fetch_ok e) (map (\<lambda>f. (smb, f)) file_list))" by blast
  from Cons.prems fl have "\<forall>k\<in>set (flatten d). \<not> fetch_raises e k" by auto
  from Cons.IH[OF this, of s1] obtain s' where
    r: "download_symbols e d s1 = (s', None)"
    and a: "attempted s' = attempted s1 @ flatten d"
    and c: "successful s' = successful s1 + length (filter (fetch_ok e) (flatten d))" by blast
  from r1 r x have "download_symbols e (x # d) s = (s', None)" by simp
  with a c a1 c1 fl show ?case by simp
qed

lemma flatten_dict_set:
  "mset (flatten (dict_set d k ((case map_of d k of None \<Rightarrow> [] | Some l \<Rightarrow> l) @ [x]))) =
   mset (flatten d) + {#(k, x)#}"
proof (induction d)
  case Nil
  then show ?case by (simp add: flatten_def)
next
  case (Cons a d)
  obtain k' v' where a: "a = (k', v')" by (cases a)
  show ?case
  proof (cases "k' = k")
    case True
    then show ?thesis by (simp add: a flatten_def)
  next
    case False
    with Cons show ?thesis by (simp add: a flatten_def)
  qed
qed

lemma mset_group_by_symbol:
  "mset (flatten (group_by_symbol fs d)) = mset fs + mset (flatten d)"
proof (induction fs arbitrary: d)
  case Nil
  then show ?case by simp
next
  case (Cons f fs)
  obtain smb interval yr month where f: "f = (smb, interval, yr, month)" by (cases f)
  show ?case
    unfolding f by (simp add: Let_def Cons.IH flatten_dict_set)
qed

lemma length_filter_all: "(length (filter P xs) = length xs) = list_all P xs"
proof (cases "list_all P xs")
  case True
  then have "filter P xs = xs" by (simp add: list_all_iff)
  with True show ?thesis by simp
next
  case False
  then obtain x where "x \<in> set xs" "\<not> P x" by (auto simp: list_all_iff)
  then have "length (filter P xs) < length xs" by (rule length_filter_less)
  with False show ?thesis by simp
qed

lemma length_filter_mset:
  "mset xs = mset ys \<Longrightarrow> length (filter P xs) = length (filter P ys)"
proof -
  assume "mset xs = mset ys"
  then have "mset (filter P xs) = mset (filter P ys)" by simp
  then show ?thesis by (rule mset_eq_length)
qed

lemma check_data_files_exist_filter:
  "check_data_files_exist e st cfgs =
     (filter (absent e st) (get_required_data_files cfgs) = [],
      filter (absent e st) (get_required_data_files cfgs))"
  by (simp add: check_data_files_exist_def check_missing_filter Let_def)

lemma flatten_Nil: "flatten [] = []"
  by (simp add: flatten_def)

lemma download_missing_data_ok:
  assumes x: "exchange_config_file e" "has_mt5 e" "initialize_mt5 e"
    and nr: "\<forall>k\<in>set missing. \<not> fetch_raises e k"
  shows "\<exists>s. download_missing_data e st missing = (s, Inr (list_all (fetch_ok e) missing)) \<and>
             mset (attempted s) = mset missing"
proof -
  let ?d = "group_by_symbol missing []"
  let ?s0 = "\<lparr>dl_storage = st, successful = 0, attempted = []\<rparr>"
  have m: "mset (flatten ?d) = mset missing"
    by (simp add: mset_group_by_symbol flatten_Nil)
  then have "set (flatten ?d) = set missing" by (rule mset_eq_setD)
  with nr have "\<forall>k\<in>set (flatten ?d). \<not> fetch_raises e k" by simp
  from download_symbols_ok[OF this, of ?s0] obtain s where
    r: "download_symbols e ?d ?s0 = (s, None)"
    and a: "attempted s = flatten ?d"
    and c: "successful s = length (filter (fetch_ok e) (flatten ?d))" by auto
  from c have "successful s = length (filter (fetch_ok e) missing)"
    using length_filter_mset[OF m] by simp
  then have "(successful s = length missing) = list_all (fetch_ok e) missing"
    by (simp add: length_filter_all)
  with x r have "download_missing_data e st missing = (s, Inr (list_all (fetch_ok e) missing))"
    by (simp add: download_missing_data_def Let_def)
  with a m show ?thesis by auto
qed

text \<open>
  C5, as amended. When no fetch raises on its date: if every required file is present,
  \<^verbatim>\<open>ensure_data_files\<close> answers true, attempts no fetch and leaves the storage as it is;
  otherwise, if no exchange configuration file was given, or it has no \<^verbatim>\<open>mt5\<close> entry, or
  MetaTrader cannot be initialised, it answers false and attempts no fetch; otherwise it
  attempts exactly one fetch per missing key, whatever the earlier fetches answered, and
  answers true exactly when every one of them succeeded.
\<close>

theorem ensure_data_files_cases:
  assumes r: "ensure_data_files e st cfgs = (s, r)"
    and nr: "\<forall>k\<in>set (get_required_data_files cfgs). \<not> fetch_raises e k"
  shows "snd (check_data_files_exist e st cfgs) =
           filter (absent e st) (get_required_data_files cfgs) \<and>
         (if filter (absent e st) (get_required_data_files cfgs) = []
          then r = Inr True \<and> attempted s = [] \<and> dl_storage s = st
          else if \<not> (exchange_config_file e \<and> has_mt5 e \<and> initialize_mt5 e)
          then r = Inr False \<and> attempted s = [] \<and> dl_storage s = st
          else mset (attempted s) = mset (filter (absent e st) (get_required_data_files cfgs)) \<and>
               r = Inr (list_all (fetch_ok e)
                          (filter (absent e st) (get_required_data_files cfgs))))"
proof -
  let ?missing = "filter (absent e st) (get_required_data_files cfgs)"
  have c: "check_data_files_exist e st cfgs = (?missing = [], ?missing)"
    by (rule check_data_files_exist_filter)
  show ?thesis
  proof (cases "?missing = []")
    case True
    with r c show ?thesis by (auto simp: ensure_data_files_def)
  next
    case False
    show ?thesis
    proof (cases "exchange_config_file e \<and> has_mt5 e \<and> initialize_mt5 e")
      case F: False
      with r c False show ?thesis
        by (auto simp: ensure_data_files_def download_missing_data_def Let_def split: if_splits)
    next
      case True
      from nr have "\<forall>k\<in>set ?missing. \<not> fetch_raises e k" by simp
      from download_missing_data_ok[OF _ _ _ this, of st] True obtain s' where
        d: "download_missing_data e st ?missing = (s', Inr (list_all (fetch_ok e) ?missing))"
        and m: "mset (attempted s') = mset ?missing" by blast
      from r c False True d have "s = s'" "r = Inr (list_all (fetch_ok e) ?missing)"
        by (simp_all add: ensure_data_files_def)
      with m c False True show ?thesis by simp
    qed
  qed
qed

lemma required_cfg_a:
  "get_required_data_files [cfg_a] = [(''EURUSD'', ''1m'', 2024, 1), (''EURUSD'', ''5m'', 2024, 1)]"
  by code_simp

lemma ensure_env_dl:
  "attempted (fst (ensure_data_files env_dl no_files [cfg_a])) =
     [(''EURUSD'', ''1m'', 2024, 1), (''EURUSD'', ''5m'', 2024, 1)] \<and>
   successful (fst (ensure_data_files env_dl no_files [cfg_a])) = 1 \<and>
   snd (ensure_data_files env_dl no_files [cfg_a]) = Inr False \<and>
   dl_storage (fst (ensure_data_files env_dl no_files [cfg_a])) ''data/EURUSD-1m-2024-01.csv'' = None \<and>
   dl_storage (fst (ensure_data_files env_dl no_files [cfg_a])) ''data/EURUSD-5m-2024-01.csv'' =
     Some (Csv [bar 0])"
  by code_simp

theorem ensure_data_files_cases_witness:
  "get_required_data_files [cfg_a] =
     [(''EURUSD'', ''1m'', 2024, 1), (''EURUSD'', ''5m'', 2024, 1)] \<and>
   \<not> fetch_raises env_dl (''EURUSD'', ''1m'', 2024, 1) \<and>
   \<not> fetch_raises env_dl (''EURUSD'', ''5m'', 2024, 1) \<and>
   exchange_config_file env_dl \<and> has_mt5 env_dl \<and> initialize_mt5 env_dl \<and>
   filter (absent env_dl no_files) (get_required_data_files [cfg_a]) =
     [(''EURUSD'', ''1m'', 2024, 1), (''EURUSD'', ''5m'', 2024, 1)] \<and>
   \<not> fetch_ok env_dl (''EURUSD'', ''1m'', 2024, 1) \<and>
   fetch_ok env_dl (''EURUSD'', ''5m'', 2024, 1) \<and>
   mset (attempted (fst (ensure_data_files env_dl no_files [cfg_a]))) =
     mset [(''EURUSD'', ''1m'', 2024, 1), (''EURUSD'', ''5m'', 2024, 1)] \<and>
   snd (ensure_data_files env_dl no_files [cfg_a]) = Inr False"
proof -
  have nr: "\<forall>k\<in>set (get_required_data_files [cfg_a]). \<not> fetch_raises env_dl k"
    unfolding required_cfg_a by code_simp
  have x: "exchange_config_file env_dl \<and> has_mt5 env_dl \<and> initialize_mt5 env_dl"
    by code_simp
  have m: "filter (absent env_dl no_files) (get_required_data_files [cfg_a]) =
     [(''EURUSD'', ''1m'', 2024, 1), (''EURUSD'', ''5m'', 2024, 1)]"
    by code_simp
  have f: "\<not> fetch_ok env_dl (''EURUSD'', ''1m'', 2024, 1) \<and>
           fetch_ok env_dl (''EURUSD'', ''5m'', 2024, 1)"
    by code_simp
  have r: "ensure_data_files env_dl no_files [cfg_a] =
             (fst (ensure_data_files env_dl no_files [cfg_a]),
              snd (ensure_data_files env_dl no_files [cfg_a]))"
    by simp
  from ensure_data_files_cases [OF r nr] x m f
  have "mset (attempted (fst (ensure_data_files env_dl no_files [cfg_a]))) =
          mset [(''EURUSD'', ''1m'', 2024, 1), (''EURUSD'', ''5m'', 2024, 1)] \<and>
        snd (ensure_data_files env_dl no_files [cfg_a]) = Inr False"
    by simp
  with nr x m f show ?thesis by (simp add: required_cfg_a)
qed

text \<open>
  C5, counterexample. Two files are missing and no exchange configuration file was given:
  \<^verbatim>\<open>ensure_data_files\<close> answers false without attempting a fetch.
\<close>

theorem no_provider_no_fetch_counterexample:
  "snd (check_data_files_exist env_a no_files [cfg_a]) =
     [(''EURUSD'', ''1m'', 2024, 1), (''EURUSD'', ''5m'', 2024, 1)] \<and>
   attempted (fst (ensure_data_files env_a no_files [cfg_a])) = [] \<and>
   snd (ensure_data_files env_a no_files [cfg_a]) = Inr False"
  by code_simp

lemma run_backtests_all:
  "c < 2 \<Longrightarrow> \<forall>cfg\<in>set (take (2 - c) cfgs). snd (backtest_bot_trader e st cfg) = Inr () \<Longrightarrow>
   run_backtests e st cfgs c r =
     (r\<lparr>backtested := backtested r @ take (2 - c) cfgs,
        bot_traders := bot_traders r @
          map (\<lambda>cfg. (cfg, fst (backtest_bot_trader e st cfg))) (take (2 - c) cfgs)\<rparr>, Inr ())"
proof (induction cfgs arbitrary: c r)
  case Nil
  then show ?case by simp
next
  case (Cons cfg cfgs)
  from Cons.prems obtain k where k: "2 - c = Suc k" by (cases "2 - c") auto
  with Cons.prems(2) have ok: "snd (backtest_bot_trader e st cfg) = Inr ()" by simp
  then obtain w where w: "backtest_bot_trader e st cfg = (w, Inr ())"
    by (cases "backtest_bot_trader e st cfg") auto
  let ?r = "r\<lparr>backtested := backtested r @ [cfg], bot_traders := bot_traders r @ [(cfg, w)]\<rparr>"
  show ?case
  proof (cases "c + 1 \<ge> 2")
    case True
    with Cons.prems(1) k have "k = 0" by simp
    with w True k show ?thesis by simp
  next
    case False
    then have c0: "c = 0" by simp
    from Cons.prems(2) c0 have a: "\<forall>cfg\<in>set (take (2 - 1) cfgs).
        snd (backtest_bot_trader e st cfg) = Inr ()" by (simp add: numeral_2_eq_2)
    have "run_backtests e st cfgs 1 ?r =
            (?r\<lparr>backtested := backtested ?r @ take (2 - 1) cfgs,
                bot_traders := bot_traders ?r @
                  map (\<lambda>cfg. (cfg, fst (backtest_bot_trader e st cfg))) (take (2 - 1) cfgs)\<rparr>,
             Inr ())"
      using a by (intro Cons.IH) simp_all
    with w c0 show ?thesis by (simp add: numeral_2_eq_2)
  qed
qed

lemma run_backtests_raises:
  "c < 2 \<Longrightarrow> j < min (length cfgs) (2 - c) \<Longrightarrow>
   \<forall>i<j. snd (backtest_bot_trader e st (cfgs ! i)) = Inr () \<Longrightarrow>
   snd (backtest_bot_trader e st (cfgs ! j)) = Inl err \<Longrightarrow>
   run_backtests e st cfgs c r =
     (r\<lparr>backtested := backtested r @ take (Suc j) cfgs,
        bot_traders := bot_traders r @
          map (\<lambda>cfg. (cfg, fst (backtest_bot_trader e st cfg))) (take j cfgs)\<rparr>, Inl err)"
proof (induction cfgs arbitrary: c r j)
  case Nil
  then show ?case by simp
next
  case (Cons cfg cfgs)
  show ?case
  proof (cases j)
    case 0
    with Cons.prems(4) obtain w where w: "backtest_bot_trader e st cfg = (w, Inl err)"
      by (cases "backtest_bot_trader e st cfg") auto
    with 0 show ?thesis by simp
  next
    case (Suc j')
    from Cons.prems(2) Suc have lt: "Suc j' < 2 - c" by simp
    from lt have c0: "c = 0" by arith
    from lt have j0: "j' = 0" by arith
    from Cons.prems(3) Suc have "snd (backtest_bot_trader e st ((cfg # cfgs) ! 0)) = Inr ()"
      by blast
    then obtain w where w: "backtest_bot_trader e st cfg = (w, Inr ())"
      by (cases "backtest_bot_trader e st cfg") auto
    let ?r = "r\<lparr>backtested := backtested r @ [cfg], bot_traders := bot_traders r @ [(cfg, w)]\<rparr>"
    have l: "j' < min (length cfgs) (2 - 1)"
      using Cons.prems(2) Suc j0 by simp
    have b: "\<forall>i<j'. snd (backtest_bot_trader e st (cfgs ! i)) = Inr ()"
      using j0 by simp
    have x: "snd (backtest_bot_trader e st (cfgs ! j')) = Inl err"
      using Cons.prems(4) Suc by simp
    have "(1::nat) < 2" by simp
    from Cons.IH[OF this l b x, of ?r]
    have "run_backtests e st cfgs 1 ?r =
            (?r\<lparr>backtested := backtested ?r @ take (Suc j') cfgs,
                bot_traders := bot_traders ?r @
                  map (\<lambda>cfg. (cfg, fst (backtest_bot_trader e st cfg))) (take j' cfgs)\<rparr>,
             Inl err)" .
    with w c0 Suc show ?thesis by simp
  qed
qed

lemma run_backtests_prefix:
  "c < 2 \<Longrightarrow>
   \<exists>k j. j \<le> k \<and> k \<le> min (length cfgs) (2 - c) \<and>
       backtested (fst (run_backtests e st cfgs c r)) = backtested r @ take k cfgs \<and>
       map fst (bot_traders (fst (run_backtests e st cfgs c r))) =
         map fst (bot_traders r) @ take j cfgs"
proof (induction cfgs arbitrary: c r)
  case Nil
  then show ?case by simp
next
  case (Cons cfg cfgs)
  obtain w x where w: "backtest_bot_trader e st cfg = (w, x)"
    by (cases "backtest_bot_trader e st cfg")
  let ?run = "fst (run_backtests e st (cfg # cfgs) c r)"
  let ?r = "r\<lparr>backtested := backtested r @ [cfg], bot_traders := bot_traders r @ [(cfg, w)]\<rparr>"
  have one: "(1::nat) \<le> min (length (cfg # cfgs)) (2 - c)"
    using Cons.prems by simp
  show ?case
  proof (cases x)
    case (Inl err)
    with w have "backtested ?run = backtested r @ take 1 (cfg # cfgs)"
      and "map fst (bot_traders ?run) = map fst (bot_traders r) @ take 0 (cfg # cfgs)"
      by simp_all
    with one show ?thesis
      by (intro exI[of _ 1] exI[of _ 0]) simp
  next
    case (Inr u)
    show ?thesis
    proof (cases "c + 1 \<ge> 2")
      case True
      with w Inr have "backtested ?run = backtested r @ take 1 (cfg # cfgs)"
        and "map fst (bot_traders ?run) = map fst (bot_traders r) @ take 1 (cfg # cfgs)"
        by simp_all
      with one show ?thesis
        by (intro exI[of _ 1]) simp
    next
      case False
      then have c0: "c = 0" by simp
      have "(1::nat) < 2" by simp
      from Cons.IH[OF this, of ?r] obtain k j where
        jk: "j \<le> k" and k: "k \<le> min (length cfgs) (2 - 1)"
        and b: "backtested (fst (run_backtests e st cfgs 1 ?r)) = backtested ?r @ take k cfgs"
        and m: "map fst (bot_traders (fst (run_backtests e st cfgs 1 ?r))) =
                map fst (bot_traders ?r) @ take j cfgs" by blast
      from w Inr c0 b have "backtested ?run = backtested r @ take (Suc k) (cfg # cfgs)"
        by simp
      moreover from w Inr c0 m
      have "map fst (bot_traders ?run) = map fst (bot_traders r) @ take (Suc j) (cfg # cfgs)"
        by simp
      moreover from k c0 have "Suc k \<le> min (length (cfg # cfgs)) (2 - c)" by simp
      moreover from jk have "Suc j \<le> Suc k" by simp
      ultimately show ?thesis by blast
    qed
  qed
qed

text \<open>
  C9, as amended. The entries \<^verbatim>\<open>start\<close> backtests are always the first \<open>k\<close> entries of the
  configuration, in order, for some \<open>k\<close> up to min(n, 2), and the traders in
  \<^verbatim>\<open>self.bot_traders\<close> are those of the first \<open>j \<le> k\<close> of them. When \<^verbatim>\<open>ensure_data_files\<close>
  answers false, \<^verbatim>\<open>start\<close> returns having backtested no entry, and when it raises, so does
  \<^verbatim>\<open>start\<close>, with no entry backtested. When it answers true and the backtests of the first
  two entries return, exactly the first min(n, 2) entries are backtested, each on the
  provisioned storage, and later entries are not run. When it answers true and the
  backtest of the entry at place \<open>j\<close>, one of the first two, is the first to raise,
  \<^verbatim>\<open>start\<close> raises the same exception: the entries up to that one have been backtested and
  the ones before it have their traders.
\<close>

theorem start_backtests_first_two:
  "(\<exists>k j. j \<le> k \<and> k \<le> min (length cfgs) 2 \<and>
          backtested (fst (start e st cfgs)) = take k cfgs \<and>
          map fst (bot_traders (fst (start e st cfgs))) = take j cfgs) \<and>
   (\<forall>s. ensure_data_files e st cfgs = (s, Inr False) \<longrightarrow>
        start e st cfgs = (\<lparr>bot_traders = [], backtested = []\<rparr>, Inr ())) \<and>
   (\<forall>s err. ensure_data_files e st cfgs = (s, Inl err) \<longrightarrow>
        start e st cfgs = (\<lparr>bot_traders = [], backtested = []\<rparr>, Inl err)) \<and>
   (\<forall>s. ensure_data_files e st cfgs = (s, Inr True) \<and>
        (\<forall>cfg\<in>set (take 2 cfgs). snd (backtest_bot_trader e (dl_storage s) cfg) = Inr ()) \<longrightarrow>
        start e st cfgs =
          (\<lparr>bot_traders =
              map (\<lambda>cfg. (cfg, fst (backtest_bot_trader e (dl_storage s) cfg))) (take 2 cfgs),
            backtested = take 2 cfgs\<rparr>, Inr ()) \<and>
        length (backtested (fst (start e st cfgs))) = min (length cfgs) 2) \<and>
   (\<forall>s j err. ensure_data_files e st cfgs = (s, Inr True) \<and> j < min (length cfgs) 2 \<and>
        (\<forall>i<j. snd (backtest_bot_trader e (dl_storage s) (cfgs ! i)) = Inr ()) \<and>
        snd (backtest_bot_trader e (dl_storage s) (cfgs ! j)) = Inl err \<longrightarrow>
        start e st cfgs =
          (\<lparr>bot_traders =
              map (\<lambda>cfg. (cfg, fst (backtest_bot_trader e (dl_storage s) cfg))) (take j cfgs),
            backtested = take (Suc j) cfgs\<rparr>, Inl err))"
proof (intro conjI allI impI)
  obtain s x where en: "ensure_data_files e st cfgs = (s, x)"
    by (cases "ensure_data_files e st cfgs")
  show "\<exists>k j. j \<le> k \<and> k \<le> min (length cfgs) 2 \<and>
          backtested (fst (start e st cfgs)) = take k cfgs \<and>
          map fst (bot_traders (fst (start e st cfgs))) = take j cfgs"
  proof (cases "x = Inr True")
    case True
    with en have "start e st cfgs =
        run_backtests e (dl_storage s) cfgs 0 \<lparr>bot_traders = [], backtested = []\<rparr>"
      by (simp add: start_def)
    with run_backtests_prefix[of 0 cfgs e "dl_storage s" "\<lparr>bot_traders = [], backtested = []\<rparr>"]
    show ?thesis by simp
  next
    case False
    with en have "fst (start e st cfgs) = \<lparr>bot_traders = [], backtested = []\<rparr>"
      by (cases x) (auto simp: start_def)
    then have "backtested (fst (start e st cfgs)) = take 0 cfgs"
      and "map fst (bot_traders (fst (start e st cfgs))) = take 0 cfgs" by simp_all
    then show ?thesis by (intro exI[of _ 0]) simp
  qed
next
  fix s
  assume "ensure_data_files e st cfgs = (s, Inr False)"
  then show "start e st cfgs = (\<lparr>bot_traders = [], backtested = []\<rparr>, Inr ())"
    by (simp add: start_def)
next
  fix s err
  assume "ensure_data_files e st cfgs = (s, Inl err)"
  then show "start e st cfgs = (\<lparr>bot_traders = [], backtested = []\<rparr>, Inl err)"
    by (simp add: start_def)
next
  fix s
  assume a: "ensure_data_files e st cfgs = (s, Inr True) \<and>
        (\<forall>cfg\<in>set (take 2 cfgs). snd (backtest_bot_trader e (dl_storage s) cfg) = Inr ())"
  let ?r = "\<lparr>bot_traders = [], backtested = []\<rparr> :: 'a run_state"
  from a have "start e st cfgs = run_backtests e (dl_storage s) cfgs 0 ?r"
    by (simp add: start_def)
  also have "\<dots> = (?r\<lparr>backtested := backtested ?r @ take (2 - 0) cfgs,
                       bot_traders := bot_traders ?r @
                         map (\<lambda>cfg. (cfg, fst (backtest_bot_trader e (dl_storage s) cfg)))
                           (take (2 - 0) cfgs)\<rparr>, Inr ())"
    using a by (intro run_backtests_all) simp_all
  finally show st: "start e st cfgs =
          (\<lparr>bot_traders =
              map (\<lambda>cfg. (cfg, fst (backtest_bot_trader e (dl_storage s) cfg))) (take 2 cfgs),
            backtested = take 2 cfgs\<rparr>, Inr ())" by simp
  show "length (backtested (fst (start e st cfgs))) = min (length cfgs) 2"
    unfolding st by simp
next
  fix s j err
  assume a: "ensure_data_files e st cfgs = (s, Inr True) \<and> j < min (length cfgs) 2 \<and>
        (\<forall>i<j. snd (backtest_bot_trader e (dl_storage s) (cfgs ! i)) = Inr ()) \<and>
        snd (backtest_bot_trader e (dl_storage s) (cfgs ! j)) = Inl err"
  let ?r = "\<lparr>bot_traders = [], backtested = []\<rparr> :: 'a run_state"
  from a have "start e st cfgs = run_backtests e (dl_storage s) cfgs 0 ?r"
    by (simp add: start_def)
  also have "\<dots> = (?r\<lparr>backtested := backtested ?r @ take (Suc j) cfgs,
                       bot_traders := bot_traders ?r @
                         map (\<lambda>cfg. (cfg, fst (backtest_bot_trader e (dl_storage s) cfg)))
                           (take j cfgs)\<rparr>, Inl err)"
    using a by (intro run_backtests_raises) simp_all
  finally show "start e st cfgs =
          (\<lparr>bot_traders =
              map (\<lambda>cfg. (cfg, fst (backtest_bot_trader e (dl_storage s) cfg))) (take j cfgs),
            backtested = take (Suc j) cfgs\<rparr>, Inl err)" by simp
qed

lemma ensure_store_all:
  "ensure_data_files env_a store_all cfgs_three =
     (\<lparr>dl_storage = store_all, successful = 0, attempted = []\<rparr>, Inr True)"
proof -
  have "filter (absent env_a store_all) (get_required_data_files cfgs_three) = []"
    by code_simp
  then show ?thesis
    by (simp add: ensure_data_files_def check_data_files_exist_filter)
qed

lemma ensure_store_b:
  "ensure_data_files env_a store_b [cfg_a, cfg_twice] =
     (\<lparr>dl_storage = store_b, successful = 0, attempted = []\<rparr>, Inr True)"
proof -
  have "filter (absent env_a store_b) (get_required_data_files [cfg_a, cfg_twice]) = []"
    by code_simp
  then show ?thesis
    by (simp add: ensure_data_files_def check_data_files_exist_filter)
qed

lemma ensure_no_files: "snd (ensure_data_files env_a no_files [cfg_a]) = Inr False"
  by code_simp

lemma ensure_cfg_13: "snd (ensure_data_files env_dl no_files [cfg_13]) = Inl ValueError_Date"
  by code_simp

lemma backtest_all_a: "snd (backtest_bot_trader env_a store_all cfg_a) = Inr ()"
  by code_simp

lemma backtest_all_4h: "snd (backtest_bot_trader env_a store_all cfg_4h) = Inr ()"
  by code_simp

theorem start_backtests_first_two_witness:
  "snd (ensure_data_files env_a store_all cfgs_three) = Inr True \<and>
   length cfgs_three = 3 \<and>
   snd (backtest_bot_trader env_a store_all cfg_a) = Inr () \<and>
   snd (backtest_bot_trader env_a store_all cfg_4h) = Inr () \<and>
   backtested (fst (start env_a store_all cfgs_three)) = [cfg_a, cfg_4h] \<and>
   map fst (bot_traders (fst (start env_a store_all cfgs_three))) = [cfg_a, cfg_4h] \<and>
   snd (start env_a store_all cfgs_three) = Inr () \<and>
   snd (ensure_data_files env_a no_files [cfg_a]) = Inr False \<and>
   start env_a no_files [cfg_a] = (\<lparr>bot_traders = [], backtested = []\<rparr>, Inr ()) \<and>
   snd (ensure_data_files env_dl no_files [cfg_13]) = Inl ValueError_Date \<and>
   start env_dl no_files [cfg_13] = (\<lparr>bot_traders = [], backtested = []\<rparr>, Inl ValueError_Date) \<and>
   snd (ensure_data_files env_a store_b [cfg_a, cfg_twice]) = Inr True \<and>
   snd (backtest_bot_trader env_a store_b cfg_a) =
     Inl (ValueError_Insufficient ''EURUSD'' ''5m'' 2 1) \<and>
   start env_a store_b [cfg_a, cfg_twice] =
     (\<lparr>bot_traders = [], backtested = [cfg_a]\<rparr>,
      Inl (ValueError_Insufficient ''EURUSD'' ''5m'' 2 1))"
proof -
  have t: "take 2 cfgs_three = [cfg_a, cfg_4h]"
    by (simp add: cfgs_three_def numeral_2_eq_2)
  have l: "length cfgs_three = 3" by (simp add: cfgs_three_def)
  have b: "\<forall>cfg\<in>set (take 2 cfgs_three).
             snd (backtest_bot_trader env_a
                    (dl_storage \<lparr>dl_storage = store_all, successful = 0, attempted = []\<rparr>) cfg) =
             Inr ()"
    using backtest_all_a backtest_all_4h by (simp add: t)
  from start_backtests_first_two [of cfgs_three env_a store_all] ensure_store_all b
  have "start env_a store_all cfgs_three =
          (\<lparr>bot_traders = map (\<lambda>cfg. (cfg, fst (backtest_bot_trader env_a
                  (dl_storage \<lparr>dl_storage = store_all, successful = 0, attempted = []\<rparr>) cfg)))
             (take 2 cfgs_three), backtested = take 2 cfgs_three\<rparr>, Inr ())"
    by blast
  then have one: "backtested (fst (start env_a store_all cfgs_three)) = [cfg_a, cfg_4h] \<and>
             map fst (bot_traders (fst (start env_a store_all cfgs_three))) = [cfg_a, cfg_4h] \<and>
             snd (start env_a store_all cfgs_three) = Inr ()"
    by (simp add: t)
  obtain s2 where "ensure_data_files env_a no_files [cfg_a] = (s2, Inr False)"
    using ensure_no_files by (cases "ensure_data_files env_a no_files [cfg_a]") simp
  with start_backtests_first_two [of "[cfg_a]" env_a no_files]
  have two: "start env_a no_files [cfg_a] = (\<lparr>bot_traders = [], backtested = []\<rparr>, Inr ())"
    by blast
  obtain s3 where "ensure_data_files env_dl no_files [cfg_13] = (s3, Inl ValueError_Date)"
    using ensure_cfg_13 by (cases "ensure_data_files env_dl no_files [cfg_13]") simp
  with start_backtests_first_two [of "[cfg_13]" env_dl no_files]
  have three: "start env_dl no_files [cfg_13] =
                 (\<lparr>bot_traders = [], backtested = []\<rparr>, Inl ValueError_Date)"
    by blast
  have x: "snd (backtest_bot_trader env_a store_b cfg_a) =
             Inl (ValueError_Insufficient ''EURUSD'' ''5m'' 2 1)"
    by (simp add: backtest_store_b)
  have "ensure_data_files env_a store_b [cfg_a, cfg_twice] =
          (\<lparr>dl_storage = store_b, successful = 0, attempted = []\<rparr>, Inr True) \<and>
        0 < min (length [cfg_a, cfg_twice]) 2 \<and>
        (\<forall>i<0. snd (backtest_bot_trader env_a
                  (dl_storage \<lparr>dl_storage = store_b, successful = 0, attempted = []\<rparr>)
                  ([cfg_a, cfg_twice] ! i)) = Inr ()) \<and>
        snd (backtest_bot_trader env_a
               (dl_storage \<lparr>dl_storage = store_b, successful = 0, attempted = []\<rparr>)
               ([cfg_a, cfg_twice] ! 0)) = Inl (ValueError_Insufficient ''EURUSD'' ''5m'' 2 1)"
    using ensure_store_b x by simp
  with start_backtests_first_two [of "[cfg_a, cfg_twice]" env_a store_b]
  have "start env_a store_b [cfg_a, cfg_twice] =
          (\<lparr>bot_traders = map (\<lambda>cfg. (cfg, fst (backtest_bot_trader env_a
                  (dl_storage \<lparr>dl_storage = store_b, successful = 0, attempted = []\<rparr>) cfg)))
             (take 0 [cfg_a, cfg_twice]), backtested = take (Suc 0) [cfg_a, cfg_twice]\<rparr>,
           Inl (ValueError_Insufficient ''EURUSD'' ''5m'' 2 1))"
    by blast
  then have four: "start env_a store_b [cfg_a, cfg_twice] =
     (\<lparr>bot_traders = [], backtested = [cfg_a]\<rparr>,
      Inl (ValueError_Insufficient ''EURUSD'' ''5m'' 2 1))"
    by simp
  from one two three four l x ensure_store_all ensure_store_b ensure_no_files ensure_cfg_13
    backtest_all_a backtest_all_4h
  show ?thesis by simp
qed

text \<open>
  C9, counterexample. With one symbol entry and a data check that fails, \<^verbatim>\<open>start\<close>
  backtests no entry, not min(1, 2) = 1. With two symbol entries and a data check that
  passes, the backtest of the first entry raises on its five-minute chart, which is too
  short, and the second entry is never backtested: one entry, not min(2, 2) = 2, and no
  trader in \<^verbatim>\<open>self.bot_traders\<close>.
\<close>

theorem start_backtests_counterexample:
  "length [cfg_a] = 1 \<and>
   snd (ensure_data_files env_a no_files [cfg_a]) = Inr False \<and>
   backtested (fst (start env_a no_files [cfg_a])) = [] \<and>
   length [cfg_a, cfg_twice] = 2 \<and>
   snd (ensure_data_files env_a store_b [cfg_a, cfg_twice]) = Inr True \<and>
   length (backtested (fst (start env_a store_b [cfg_a, cfg_twice]))) = 1 \<and>
   length (bot_traders (fst (start env_a store_b [cfg_a, cfg_twice]))) = 0 \<and>
   snd (start env_a store_b [cfg_a, cfg_twice]) =
     Inl (ValueError_Insufficient ''EURUSD'' ''5m'' 2 1)"
  by code_simp

end
